theory Spec2Isabelle
  imports Main "HOL-Library.Sublist" "HOL-Library.AList" "HOL-Library.Word"
begin

section \<open>Text, bytes and the string operations of the source\<close>

text \<open>
  The converter of \<^verbatim>\<open>mhtml_extractor.py\<close> works on Python \<^verbatim>\<open>str\<close> values, which are
  sequences of Unicode code points (\<^verbatim>\<open>len\<close> counts code points), and on \<^verbatim>\<open>bytes\<close>.
  A code point is a natural number, a byte an 8-bit word. String literals of the source
  are written \<open>str ''...''\<close>.
\<close>

type_synonym codepoint = nat
type_synonym pystr = "codepoint list"
type_synonym byte = "8 word"
type_synonym pybytes = "byte list"

definition str :: "string \<Rightarrow> pystr" where
  "str s = map of_char s"

definition LF :: codepoint where "LF = 10"
definition CR :: codepoint where "CR = 13"

text \<open>The exceptions that can leave a method of the converter.\<close>

datatype pyerr =
    InvalidMHTMLStructure   \<comment> \<open>\<^verbatim>\<open>ValueError("Invalid MHTML structure")\<close>\<close>
  | NoBoundaryFound         \<comment> \<open>\<^verbatim>\<open>ValueError("No boundary found in MHTML headers")\<close>\<close>
  | EmptySeparator          \<comment> \<open>\<^verbatim>\<open>ValueError("empty separator")\<close> of \<^verbatim>\<open>split\<close> and \<^verbatim>\<open>partition\<close>\<close>
  | UnicodeEncodeError      \<comment> \<open>\<^verbatim>\<open>str.encode("utf-8")\<close> on a surrogate code point\<close>
  | KeyError                \<comment> \<open>a dictionary lookup of a missing key\<close>

datatype log_entry = Warning_DecodingError | Error_MainHtmlNotFound | Info_Saved

subsection \<open>\<^verbatim>\<open>str.strip\<close>, \<^verbatim>\<open>str.lstrip(chars)\<close>, \<^verbatim>\<open>str.startswith\<close>, \<^verbatim>\<open>str.lower\<close>\<close>

text \<open>
  \<^verbatim>\<open>str.strip()\<close> without argument removes the code points for which \<^verbatim>\<open>str.isspace\<close>
  holds: the ASCII controls 9 to 13 and 28 to 31, the space, and the Unicode spaces.
\<close>

definition py_isspace :: "codepoint \<Rightarrow> bool" where
  "py_isspace c \<longleftrightarrow>
     (9 \<le> c \<and> c \<le> 13) \<or> (28 \<le> c \<and> c \<le> 32) \<or> c = 0x85 \<or> c = 0xA0 \<or> c = 0x1680
     \<or> (0x2000 \<le> c \<and> c \<le> 0x200A) \<or> c = 0x2028 \<or> c = 0x2029 \<or> c = 0x202F
     \<or> c = 0x205F \<or> c = 0x3000"

definition str_lstrip :: "pystr \<Rightarrow> pystr" where
  "str_lstrip s = dropWhile py_isspace s"

definition str_rstrip :: "pystr \<Rightarrow> pystr" where
  "str_rstrip s = rev (dropWhile py_isspace (rev s))"

definition str_strip :: "pystr \<Rightarrow> pystr" where
  "str_strip s = str_rstrip (str_lstrip s)"

definition str_lstrip_chars :: "pystr \<Rightarrow> pystr \<Rightarrow> pystr" where
  "str_lstrip_chars s chars = dropWhile (\<lambda>c. c \<in> set chars) s"

definition startswith :: "pystr \<Rightarrow> pystr \<Rightarrow> bool" where
  "startswith s p = prefix p s"

text \<open>
  \<^verbatim>\<open>str.lower()\<close>. The converter compares the lowered transfer-encoding token with two
  ASCII literals and does nothing else with it. The code points whose lower case is an
  ASCII letter are the ASCII capitals and the Kelvin sign U+212A; the model maps these and
  leaves every other code point as it is (its real lower case is not ASCII either).
\<close>

definition lower_char :: "codepoint \<Rightarrow> codepoint" where
  "lower_char c = (if 65 \<le> c \<and> c \<le> 90 then c + 32 else if c = 0x212A then 107 else c)"

definition str_lower :: "pystr \<Rightarrow> pystr" where
  "str_lower s = map lower_char s"

subsection \<open>\<^verbatim>\<open>str.find\<close>, \<^verbatim>\<open>str.partition\<close>, \<^verbatim>\<open>str.split\<close>, \<^verbatim>\<open>str.replace\<close>\<close>

text \<open>
  \<^verbatim>\<open>s.find(sub)\<close>: the lowest index at which \<open>sub\<close> occurs in \<open>s\<close>; Python's \<open>-1\<close> is
  \<open>None\<close>.
\<close>

fun str_find :: "pystr \<Rightarrow> pystr \<Rightarrow> nat option" where
  "str_find [] sub = (if sub = [] then Some 0 else None)"
| "str_find (c # s) sub =
     (if prefix sub (c # s) then Some 0 else map_option Suc (str_find s sub))"

text \<open>\<^verbatim>\<open>s.partition(sep)\<close>: split at the first occurrence; \<open>(s, '', '')\<close> when there is none.\<close>

definition str_partition :: "pystr \<Rightarrow> pystr \<Rightarrow> pyerr + (pystr \<times> pystr \<times> pystr)" where
  "str_partition s sep =
     (if sep = [] then Inl EmptySeparator
      else case str_find s sep of
             None \<Rightarrow> Inr (s, [], [])
           | Some i \<Rightarrow> Inr (take i s, sep, drop (i + length sep) s))"

text \<open>
  \<^verbatim>\<open>s.split(sep)\<close> with a separator: the occurrences are found from the left and do not
  overlap. \<open>split_at\<close> is the loop for a separator known to be non-empty.
\<close>

function split_at :: "pystr \<Rightarrow> pystr \<Rightarrow> pystr list" where
  "split_at s sep =
     (if sep = [] then [s]
      else case str_find s sep of
             None \<Rightarrow> [s]
           | Some i \<Rightarrow> take i s # split_at (drop (i + length sep) s) sep)"
  by pat_completeness auto
termination
proof (relation "measure (\<lambda>(s, sep). length s)")
  show "wf (measure (\<lambda>(s, sep). length s))" by simp
next
  fix s sep :: pystr and i
  assume "sep \<noteq> []" and f: "str_find s sep = Some i"
  have "s \<noteq> []" using f \<open>sep \<noteq> []\<close> by (cases s) auto
  then show "((drop (i + length sep) s, sep), (s, sep)) \<in> measure (\<lambda>(s, sep). length s)"
    using \<open>sep \<noteq> []\<close> by (cases sep) auto
qed

declare split_at.simps [simp del]

definition str_split :: "pystr \<Rightarrow> pystr \<Rightarrow> pyerr + pystr list" where
  "str_split s sep = (if sep = [] then Inl EmptySeparator else Inr (split_at s sep))"

text \<open>
  \<^verbatim>\<open>s.replace(old, new)\<close>: every occurrence, from the left, without overlap. With an
  empty \<open>old\<close> Python inserts \<open>new\<close> before every code point and at the end.
\<close>

function replace_at :: "pystr \<Rightarrow> pystr \<Rightarrow> pystr \<Rightarrow> pystr" where
  "replace_at s old new =
     (if old = [] then s
      else case str_find s old of
             None \<Rightarrow> s
           | Some i \<Rightarrow> take i s @ new @ replace_at (drop (i + length old) s) old new)"
  by pat_completeness auto
termination
proof (relation "measure (\<lambda>(s, old, new). length s)")
  show "wf (measure (\<lambda>(s, old, new). length s))" by simp
next
  fix s old new :: pystr and i
  assume "old \<noteq> []" and f: "str_find s old = Some i"
  have "s \<noteq> []" using f \<open>old \<noteq> []\<close> by (cases s) auto
  then show "((drop (i + length old) s, old, new), (s, old, new))
               \<in> measure (\<lambda>(s, old, new). length s)"
    using \<open>old \<noteq> []\<close> by (cases old) auto
qed

declare replace_at.simps [simp del]

definition str_replace :: "pystr \<Rightarrow> pystr \<Rightarrow> pystr \<Rightarrow> pystr" where
  "str_replace s old new =
     (if old = [] then new @ concat (map (\<lambda>c. c # new) s) else replace_at s old new)"

subsection \<open>Codecs\<close>

text \<open>
  \<^verbatim>\<open>str.encode("utf-8")\<close> raises \<^verbatim>\<open>UnicodeEncodeError\<close> on a surrogate code point;
  \<open>None\<close> is that exception. (Text read from a file holds no surrogate.)
\<close>

definition is_surrogate :: "codepoint \<Rightarrow> bool" where
  "is_surrogate c \<longleftrightarrow> 0xD800 \<le> c \<and> c \<le> 0xDFFF"

definition utf8_encode_char :: "codepoint \<Rightarrow> pybytes option" where
  "utf8_encode_char c =
     (if c < 0x80 then Some [of_nat c]
      else if c < 0x800 then Some [of_nat (0xC0 + c div 0x40), of_nat (0x80 + c mod 0x40)]
      else if c < 0x10000 then
        (if is_surrogate c then None
         else Some [of_nat (0xE0 + c div 0x1000), of_nat (0x80 + c div 0x40 mod 0x40),
                    of_nat (0x80 + c mod 0x40)])
      else if c < 0x110000 then
        Some [of_nat (0xF0 + c div 0x40000), of_nat (0x80 + c div 0x1000 mod 0x40),
              of_nat (0x80 + c div 0x40 mod 0x40), of_nat (0x80 + c mod 0x40)]
      else None)"

definition utf8_encode :: "pystr \<Rightarrow> pybytes option" where
  "utf8_encode s = map_option concat (those (map utf8_encode_char s))"

text \<open>The text a file can hold: Unicode scalar values only.\<close>

definition valid_text :: "pystr \<Rightarrow> bool" where
  "valid_text s = list_all (\<lambda>c. c < 0x110000 \<and> \<not> is_surrogate c) s"

text \<open>
  \<^verbatim>\<open>bytes.decode("utf-8")\<close>, strict: \<open>None\<close> (\<^verbatim>\<open>UnicodeDecodeError\<close>) on a stray or
  missing continuation byte, an overlong form, a surrogate or a value above U+10FFFF.
\<close>

definition is_cont :: "byte \<Rightarrow> bool" where
  "is_cont b \<longleftrightarrow> 0x80 \<le> unat b \<and> unat b \<le> 0xBF"

definition cont_bits :: "byte \<Rightarrow> nat" where
  "cont_bits b = unat b - 0x80"

fun utf8_decode :: "pybytes \<Rightarrow> pystr option" where
  "utf8_decode [] = Some []"
| "utf8_decode (b # bs) =
     (let n = unat b in
      if n < 0x80 then map_option (Cons n) (utf8_decode bs)
      else if n < 0xE0 then
        (case bs of
           b1 # r \<Rightarrow>
             (let c = (n - 0xC0) * 0x40 + cont_bits b1 in
              if 0xC0 \<le> n \<and> is_cont b1 \<and> 0x80 \<le> c
              then map_option (Cons c) (utf8_decode r) else None)
         | _ \<Rightarrow> None)
      else if n < 0xF0 then
        (case bs of
           b1 # b2 # r \<Rightarrow>
             (let c = (n - 0xE0) * 0x1000 + cont_bits b1 * 0x40 + cont_bits b2 in
              if is_cont b1 \<and> is_cont b2 \<and> 0x800 \<le> c \<and> \<not> is_surrogate c
              then map_option (Cons c) (utf8_decode r) else None)
         | _ \<Rightarrow> None)
      else if n < 0xF8 then
        (case bs of
           b1 # b2 # b3 # r \<Rightarrow>
             (let c = (n - 0xF0) * 0x40000 + cont_bits b1 * 0x1000 + cont_bits b2 * 0x40
                      + cont_bits b3 in
              if is_cont b1 \<and> is_cont b2 \<and> is_cont b3 \<and> 0x10000 \<le> c \<and> c < 0x110000
              then map_option (Cons c) (utf8_decode r) else None)
         | _ \<Rightarrow> None)
      else None)"

text \<open>\<^verbatim>\<open>bytes.decode("latin-1")\<close> accepts every byte.\<close>

definition latin1_decode :: "pybytes \<Rightarrow> pystr" where
  "latin1_decode d = map unat d"

text \<open>\<^verbatim>\<open>base64.b64encode\<close>: the standard alphabet, padded with \<open>=\<close>.\<close>

definition b64_char :: "nat \<Rightarrow> byte" where
  "b64_char n =
     of_nat (if n < 26 then 65 + n else if n < 52 then 97 + (n - 26)
             else if n < 62 then 48 + (n - 52) else if n = 62 then 43 else 47)"

fun b64encode :: "pybytes \<Rightarrow> pybytes" where
  "b64encode [] = []"
| "b64encode [a] =
     (let n = unat a * 0x10000
      in [b64_char (n div 0x40000), b64_char (n div 0x1000 mod 0x40), 61, 61])"
| "b64encode [a, b] =
     (let n = unat a * 0x10000 + unat b * 0x100
      in [b64_char (n div 0x40000), b64_char (n div 0x1000 mod 0x40),
          b64_char (n div 0x40 mod 0x40), 61])"
| "b64encode (a # b # c # r) =
     (let n = unat a * 0x10000 + unat b * 0x100 + unat c
      in [b64_char (n div 0x40000), b64_char (n div 0x1000 mod 0x40),
          b64_char (n div 0x40 mod 0x40), b64_char (n mod 0x40)] @ b64encode r)"

text \<open>
  The two transfer decoders, \<^verbatim>\<open>base64.b64decode\<close> and \<^verbatim>\<open>quopri.decodestring\<close>, are
  functions of the standard library, lenient in ways that are theirs: they are parameters
  of the model. \<open>None\<close> is any exception they raise.
\<close>

record stdlib =
  b64decode :: "pystr \<Rightarrow> pybytes option"
  quopri_decodestring :: "pystr \<Rightarrow> pybytes option"

subsection \<open>The regular expressions of the source\<close>

text \<open>
  Every pattern of the source has the shape \<^verbatim>\<open>LITERAL([^...]+)\<close>, two of them followed by
  one closing character that the class excludes. \<^verbatim>\<open>re.search\<close> returns the leftmost
  match; the group is the longest run of the class, since the class is greedy and a
  shorter run is followed by a character of the class, never by the closing one. The
  functions return group 1 of the match, \<open>None\<close> when nothing matches.

  Under \<^verbatim>\<open>re.IGNORECASE\<close> an ASCII letter of the pattern matches both of its cases, and
  also U+0130 and U+0131 for \<open>i\<close>, U+017F for \<open>s\<close>, U+212A for \<open>k\<close>; any other pattern
  character matches itself only.
\<close>

definition ascii_lower :: "codepoint \<Rightarrow> codepoint" where
  "ascii_lower c = (if 65 \<le> c \<and> c \<le> 90 then c + 32 else c)"

definition re_ignorecase_eq :: "codepoint \<Rightarrow> codepoint \<Rightarrow> bool" where
  "re_ignorecase_eq p c \<longleftrightarrow>
     (let lo = ascii_lower p
      in ascii_lower c = lo \<or> (lo = 105 \<and> (c = 0x130 \<or> c = 0x131))
         \<or> (lo = 115 \<and> c = 0x17F) \<or> (lo = 107 \<and> c = 0x212A))"

definition match_literal ::
  "(codepoint \<Rightarrow> codepoint \<Rightarrow> bool) \<Rightarrow> pystr \<Rightarrow> pystr \<Rightarrow> pystr option" where
  "match_literal eq lit s =
     (if length lit \<le> length s \<and> list_all2 eq lit (take (length lit) s)
      then Some (drop (length lit) s) else None)"

definition match_here ::
  "(codepoint \<Rightarrow> codepoint \<Rightarrow> bool) \<Rightarrow> pystr \<Rightarrow> (codepoint \<Rightarrow> bool) \<Rightarrow> codepoint option
     \<Rightarrow> pystr \<Rightarrow> pystr option" where
  "match_here eq lit cls closing s =
     (case match_literal eq lit s of
        None \<Rightarrow> None
      | Some r \<Rightarrow>
          (let g = takeWhile cls r in
           if g = [] then None
           else case closing of
                  None \<Rightarrow> Some g
                | Some q \<Rightarrow> (if prefix [q] (dropWhile cls r) then Some g else None)))"

fun re_search ::
  "(codepoint \<Rightarrow> codepoint \<Rightarrow> bool) \<Rightarrow> pystr \<Rightarrow> (codepoint \<Rightarrow> bool) \<Rightarrow> codepoint option
     \<Rightarrow> pystr \<Rightarrow> pystr option" where
  "re_search eq lit cls closing [] = match_here eq lit cls closing []"
| "re_search eq lit cls closing (c # s) =
     (case match_here eq lit cls closing (c # s) of
        Some g \<Rightarrow> Some g
      | None \<Rightarrow> re_search eq lit cls closing s)"

section \<open>The converter\<close>

text \<open>
  The fields of \<^verbatim>\<open>MHTMLToSingleHTML\<close> that the methods read and write. The dictionary
  \<^verbatim>\<open>url_to_data_uri\<close> is a list of pairs in insertion order, as a Python \<^verbatim>\<open>dict\<close> keeps
  it: \<open>AList.update\<close> overwrites the value of a key in place and appends a new key at
  the end. The two file paths are left to the caller; \<open>logged\<close> collects what the methods
  log.
\<close>

record converter =
  boundary :: "pystr option"
  url_to_data_uri :: "(pystr \<times> pystr) list"
  main_html :: "pystr option"
  logged :: "log_entry list"

definition new_converter :: converter where
  "new_converter = \<lparr>boundary = None, url_to_data_uri = [], main_html = None, logged = []\<rparr>"

subsection \<open>\<^verbatim>\<open>_decode_body\<close>\<close>

text \<open>
  The \<^verbatim>\<open>try\<close> block returns the decoded bytes; any exception in it is caught, a warning is
  logged and the body is encoded as UTF-8 (an exception there is not caught).
\<close>

definition decode_body :: "stdlib \<Rightarrow> pystr \<Rightarrow> pystr \<Rightarrow> pyerr + (pybytes \<times> log_entry list)" where
  "decode_body L encoding body =
     (case (if encoding = str ''base64'' then b64decode L body
            else if encoding = str ''quoted-printable'' then quopri_decodestring L body
            else utf8_encode body) of
        Some decoded \<Rightarrow> Inr (decoded, [])
      | None \<Rightarrow>
          (case utf8_encode body of
             Some raw \<Rightarrow> Inr (raw, [Warning_DecodingError])
           | None \<Rightarrow> Inl UnicodeEncodeError))"

subsection \<open>\<^verbatim>\<open>_parse_boundary\<close>, \<^verbatim>\<open>_make_data_uri\<close>, \<^verbatim>\<open>_extract_parts\<close>\<close>

definition parse_boundary :: "pystr \<Rightarrow> pystr option" where
  "parse_boundary headers =
     re_search (=) (str ''boundary=\"'') (\<lambda>c. c \<noteq> 34) (Some 34) headers"

text \<open>
  \<^verbatim>\<open>base64.b64encode(binary_data).decode("utf-8")\<close>: the encoder's output is ASCII, whose
  UTF-8 decoding is the bytes read as code points.
\<close>

definition make_data_uri :: "pystr \<Rightarrow> pybytes \<Rightarrow> pystr" where
  "make_data_uri content_type binary_data =
     str ''data:'' @ content_type @ str '';base64,'' @ map unat (b64encode binary_data)"

text \<open>\<^verbatim>\<open>parts[1:-1]\<close> is the list without its first and its last element.\<close>

definition extract_parts :: "pystr \<Rightarrow> converter \<Rightarrow> pyerr + (pystr list \<times> converter)" where
  "extract_parts content st =
     (case str_find content [LF, LF] of
        None \<Rightarrow> Inl InvalidMHTMLStructure
      | Some header_end \<Rightarrow>
          (let header_block = take header_end content in
           case parse_boundary header_block of
             None \<Rightarrow> Inl NoBoundaryFound
           | Some b \<Rightarrow>
               if b = [] then Inl NoBoundaryFound
               else case str_split content (str ''--'' @ b) of
                      Inl e \<Rightarrow> Inl e
                    | Inr parts \<Rightarrow> Inr (butlast (tl parts), st\<lparr>boundary := Some b\<rparr>)))"

subsection \<open>\<^verbatim>\<open>_process_part\<close>\<close>

text \<open>The four header searches, each on the header block, and the values taken from them.\<close>

definition content_type_match :: "pystr \<Rightarrow> pystr option" where
  "content_type_match headers =
     re_search re_ignorecase_eq (str ''Content-Type: '') (\<lambda>c. c \<noteq> LF \<and> c \<noteq> 59) None headers"

definition encoding_match :: "pystr \<Rightarrow> pystr option" where
  "encoding_match headers =
     re_search re_ignorecase_eq (str ''Content-Transfer-Encoding: '') (\<lambda>c. c \<noteq> LF) None headers"

definition location_match :: "pystr \<Rightarrow> pystr option" where
  "location_match headers =
     re_search re_ignorecase_eq (str ''Content-Location: '') (\<lambda>c. c \<noteq> LF) None headers"

definition cid_match :: "pystr \<Rightarrow> pystr option" where
  "cid_match headers =
     re_search re_ignorecase_eq (str ''Content-ID: <'') (\<lambda>c. c \<noteq> 62) (Some 62) headers"

definition header_content_type :: "pystr \<Rightarrow> pystr" where
  "header_content_type headers =
     (case content_type_match headers of
        Some g \<Rightarrow> str_strip g
      | None \<Rightarrow> str ''application/octet-stream'')"

definition header_encoding :: "pystr \<Rightarrow> pystr" where
  "header_encoding headers =
     (case encoding_match headers of
        Some g \<Rightarrow> str_lower (str_strip g)
      | None \<Rightarrow> str ''7bit'')"

text \<open>
  The first two statements of the method: the part stripped, then split at the first
  \<open>\n\n\<close>, then \<open>\r\n\<close> replaced by \<open>\n\<close> in each of the two pieces.
\<close>

definition stripped_part :: "pystr \<Rightarrow> pystr" where
  "stripped_part part = str_lstrip_chars (str_strip part) [CR, LF]"

definition headers_body :: "pystr \<Rightarrow> pyerr + (pystr \<times> pystr)" where
  "headers_body part =
     (case str_partition part [LF, LF] of
        Inl e \<Rightarrow> Inl e
      | Inr (headers, _, body) \<Rightarrow>
          Inr (str_replace headers [CR, LF] [LF], str_replace body [CR, LF] [LF]))"

text \<open>\<^verbatim>\<open>main_html = decoded.decode("utf-8")\<close>, and \<^verbatim>\<open>decoded.decode("latin-1")\<close> if that raises.\<close>

definition decode_text :: "pybytes \<Rightarrow> pystr" where
  "decode_text decoded =
     (case utf8_decode decoded of Some t \<Rightarrow> t | None \<Rightarrow> latin1_decode decoded)"

text \<open>The end of the method, from \<^verbatim>\<open>data_uri = ...\<close> on: the two registrations.\<close>

definition register_resource :: "pystr \<Rightarrow> pybytes \<Rightarrow> pystr \<Rightarrow> converter \<Rightarrow> converter" where
  "register_resource content_type decoded headers st =
     (let data_uri = make_data_uri content_type decoded;
          st1 = (case location_match headers of
                   Some g \<Rightarrow>
                     st\<lparr>url_to_data_uri := AList.update (str_strip g) data_uri (url_to_data_uri st)\<rparr>
                 | None \<Rightarrow> st);
          st2 = (case cid_match headers of
                   Some g \<Rightarrow>
                     st1\<lparr>url_to_data_uri :=
                           AList.update (str ''cid:'' @ str_strip g) data_uri (url_to_data_uri st1)\<rparr>
                 | None \<Rightarrow> st1)
      in st2)"

text \<open>
  The method up to the decoding of the body reads no field of the converter: it returns
  nothing for a part that is empty once stripped, and else the content type, the decoded
  bytes, the header block and the warnings logged.
\<close>

definition decode_part ::
  "stdlib \<Rightarrow> pystr \<Rightarrow> pyerr + (pystr \<times> pybytes \<times> pystr \<times> log_entry list) option" where
  "decode_part L part =
     (let part = stripped_part part in
      if part = [] then Inr None
      else case headers_body part of
             Inl e \<Rightarrow> Inl e
           | Inr (headers, body) \<Rightarrow>
               (let content_type = header_content_type headers;
                    encoding = header_encoding headers
                in case decode_body L encoding body of
                     Inl e \<Rightarrow> Inl e
                   | Inr (decoded, warnings) \<Rightarrow>
                       Inr (Some (content_type, decoded, headers, warnings))))"

definition process_part :: "stdlib \<Rightarrow> pystr \<Rightarrow> converter \<Rightarrow> pyerr + converter" where
  "process_part L part st =
     (case decode_part L part of
        Inl e \<Rightarrow> Inl e
      | Inr None \<Rightarrow> Inr st
      | Inr (Some (content_type, decoded, headers, warnings)) \<Rightarrow>
          (let st = st\<lparr>logged := logged st @ warnings\<rparr> in
           if startswith content_type (str ''text/html'') \<and> main_html st = None
           then Inr (st\<lparr>main_html := Some (decode_text decoded)\<rparr>)
           else Inr (register_resource content_type decoded headers st)))"

subsection \<open>\<^verbatim>\<open>_replace_links\<close> and \<^verbatim>\<open>convert\<close>\<close>

text \<open>
  \<^verbatim>\<open>sorted(keys, key=len, reverse=True)\<close> is a stable sort: keys of equal length keep the
  order of the dictionary. \<open>sort_key\<close> is stable too.
\<close>

definition sorted_keys :: "(pystr \<times> pystr) list \<Rightarrow> pystr list" where
  "sorted_keys d = sort_key (\<lambda>k. - int (length k)) (map fst d)"

fun replace_loop :: "(pystr \<times> pystr) list \<Rightarrow> pystr list \<Rightarrow> pystr \<Rightarrow> pyerr + pystr" where
  "replace_loop d [] html = Inr html"
| "replace_loop d (original # ks) html =
     (case map_of d original of
        None \<Rightarrow> Inl KeyError
      | Some data_uri \<Rightarrow> replace_loop d ks (str_replace html original data_uri))"

text \<open>
  \<^verbatim>\<open>_replace_links\<close> reads \<^verbatim>\<open>self.main_html\<close> and \<^verbatim>\<open>self.url_to_data_uri\<close>; \<^verbatim>\<open>convert\<close> calls
  it only when \<^verbatim>\<open>main_html\<close> is not \<^verbatim>\<open>None\<close>, so the model takes the text itself.
\<close>

definition replace_links :: "(pystr \<times> pystr) list \<Rightarrow> pystr \<Rightarrow> pyerr + pystr" where
  "replace_links d html = replace_loop d (sorted_keys d) html"

fun process_parts :: "stdlib \<Rightarrow> pystr list \<Rightarrow> converter \<Rightarrow> pyerr + converter" where
  "process_parts L [] st = Inr st"
| "process_parts L (part # parts) st =
     (case process_part L part st of
        Inl e \<Rightarrow> Inl e
      | Inr st' \<Rightarrow> process_parts L parts st')"

text \<open>
  \<^verbatim>\<open>convert\<close> reads the input with \<^verbatim>\<open>open(path, "r", encoding="utf-8", errors="ignore")\<close>
  and \<^verbatim>\<open>f.read()\<close>: text mode with the default \<^verbatim>\<open>newline=None\<close>, in which Python
  translates every \<open>\r\n\<close> and every other \<open>\r\<close> of the decoded text to \<open>\n\<close> before
  \<^verbatim>\<open>read\<close> returns it. \<open>universal_newlines\<close> is that translation, from the text decoded
  from the file to the text that \<^verbatim>\<open>read\<close> returns.
\<close>

fun universal_newlines :: "pystr \<Rightarrow> pystr" where
  "universal_newlines [] = []"
| "universal_newlines [c] = [if c = CR then LF else c]"
| "universal_newlines (c # c' # s) =
     (if c = CR \<and> c' = LF then LF # universal_newlines s
      else if c = CR then LF # universal_newlines (c' # s)
      else c # universal_newlines (c' # s))"

text \<open>
  \<^verbatim>\<open>convert\<close>, from the text read from the input file: the result is the exception that
  ends the run, or the final state of the converter with the text written to the output
  file (\<open>None\<close> when no file is written).
\<close>

definition convert :: "stdlib \<Rightarrow> pystr \<Rightarrow> pyerr + (converter \<times> pystr option)" where
  "convert L content =
     (case extract_parts content new_converter of
        Inl e \<Rightarrow> Inl e
      | Inr (parts, st) \<Rightarrow>
          (case process_parts L parts st of
             Inl e \<Rightarrow> Inl e
           | Inr st' \<Rightarrow>
               (case main_html st' of
                  None \<Rightarrow> Inr (st'\<lparr>logged := logged st' @ [Error_MainHtmlNotFound]\<rparr>, None)
                | Some html \<Rightarrow>
                    (case replace_links (url_to_data_uri st') html of
                       Inl e \<Rightarrow> Inl e
                     | Inr final_html \<Rightarrow>
                         Inr (st'\<lparr>logged := logged st' @ [Info_Saved]\<rparr>, Some final_html)))))"

section \<open>Notions used to state the properties\<close>

text \<open>
  The content type the method computes for a part (\<open>None\<close> for a part it skips), and
  whether it starts with \<open>text/html\<close>.
\<close>

definition part_content_type :: "pystr \<Rightarrow> pystr option" where
  "part_content_type part =
     (if stripped_part part = [] then None
      else case headers_body (stripped_part part) of
             Inl e \<Rightarrow> None
           | Inr (headers, body) \<Rightarrow> Some (header_content_type headers))"

definition is_html_part :: "pystr \<Rightarrow> bool" where
  "is_html_part part =
     (case part_content_type part of
        None \<Rightarrow> False
      | Some content_type \<Rightarrow> startswith content_type (str ''text/html''))"

text \<open>
  The path of \<^verbatim>\<open>_process_part\<close> that synthesises a data URI, taken on its own: what the
  method does with a part that does not become the main HTML.
\<close>

definition register_part :: "stdlib \<Rightarrow> pystr \<Rightarrow> converter \<Rightarrow> pyerr + converter" where
  "register_part L part st =
     (case decode_part L part of
        Inl e \<Rightarrow> Inl e
      | Inr None \<Rightarrow> Inr st
      | Inr (Some (content_type, decoded, headers, warnings)) \<Rightarrow>
          Inr (register_resource content_type decoded headers
                 (st\<lparr>logged := logged st @ warnings\<rparr>)))"

fun register_parts :: "stdlib \<Rightarrow> pystr list \<Rightarrow> converter \<Rightarrow> pyerr + converter" where
  "register_parts L [] st = Inr st"
| "register_parts L (part # parts) st =
     (case register_part L part st of
        Inl e \<Rightarrow> Inl e
      | Inr st' \<Rightarrow> register_parts L parts st')"

text \<open>\<^verbatim>\<open>sep.join(xs)\<close>, to say what a split is.\<close>

fun str_join :: "pystr \<Rightarrow> pystr list \<Rightarrow> pystr" where
  "str_join sep [] = []"
| "str_join sep [x] = x"
| "str_join sep (x # y # ys) = x @ sep @ str_join sep (y # ys)"

text \<open>
  A \<open>boundary="..."\<close> parameter in a header block: the literal name, a double quote, a
  value without double quote that is not empty, a double quote.
\<close>

definition boundary_parameter :: "pystr \<Rightarrow> pystr \<Rightarrow> pystr \<Rightarrow> pystr \<Rightarrow> bool" where
  "boundary_parameter header_block before v after \<longleftrightarrow>
     header_block = before @ str ''boundary=\"'' @ v @ [34] @ after \<and> v \<noteq> [] \<and> 34 \<notin> set v"

text \<open>The header block of a document: the text before its first \<open>\n\n\<close>.\<close>

definition header_block_of :: "pystr \<Rightarrow> pystr" where
  "header_block_of content =
     (case str_find content [LF, LF] of None \<Rightarrow> content | Some header_end \<Rightarrow> take header_end content)"

definition structural_error :: "pyerr \<Rightarrow> bool" where
  "structural_error e \<longleftrightarrow> e = InvalidMHTMLStructure \<or> e = NoBoundaryFound"

text \<open>
  The text after the \<^verbatim>\<open>str.replace\<close> of each entry of a list, in the order of the list.
\<close>

definition replace_entries :: "pystr \<Rightarrow> (pystr \<times> pystr) list \<Rightarrow> pystr" where
  "replace_entries html items = foldl (\<lambda>h (k, uri). str_replace h k uri) html items"

section \<open>Facts about the string operations\<close>

lemma str_find_None_iff: "str_find s sub = None \<longleftrightarrow> \<not> sublist sub s"
  by (induction s) (auto simp: sublist_Cons_right)

lemma str_find_Some_decomp:
  "str_find s sub = Some i \<Longrightarrow> s = take i s @ sub @ drop (i + length sub) s"
proof (induction s arbitrary: i)
  case Nil
  then show ?case by (auto split: if_splits)
next
  case (Cons c s)
  show ?case
  proof (cases "prefix sub (c # s)")
    case True
    then obtain r where "c # s = sub @ r" by (auto simp: prefix_def)
    moreover have "i = 0" using Cons.prems True by simp
    ultimately show ?thesis by simp
  next
    case False
    then obtain j where j: "str_find s sub = Some j" "i = Suc j"
      using Cons.prems by auto
    from Cons.IH[OF j(1)] show ?thesis using j(2) by simp
  qed
qed

lemma str_find_Some_bound:
  "str_find s sub = Some i \<Longrightarrow> i + length sub \<le> length s"
proof (induction s arbitrary: i)
  case Nil
  then show ?case by (auto split: if_splits)
next
  case (Cons c s)
  then show ?case by (auto split: if_splits dest: prefix_length_le)
qed

lemma str_replace_absent: "\<not> sublist old s \<Longrightarrow> str_replace s old new = s"
proof -
  assume a: "\<not> sublist old s"
  then have "old \<noteq> []" by auto
  moreover have "str_find s old = None" using a by (simp add: str_find_None_iff)
  ultimately show ?thesis by (simp add: str_replace_def replace_at.simps)
qed

subsection \<open>Stripping\<close>

lemma str_lstrip_space_append:
  "list_all py_isspace ws \<Longrightarrow> str_lstrip (ws @ s) = str_lstrip s"
  by (simp add: str_lstrip_def list_all_iff dropWhile_append2)

lemma str_rstrip_append_space:
  assumes "list_all py_isspace ws"
  shows "str_rstrip (s @ ws) = str_rstrip s"
proof -
  have "dropWhile py_isspace (rev ws @ rev s) = dropWhile py_isspace (rev s)"
    using assms by (intro dropWhile_append2) (simp add: list_all_iff)
  then show ?thesis by (simp add: str_rstrip_def)
qed

lemma str_strip_spaces:
  assumes "list_all py_isspace ws1" "list_all py_isspace ws2"
  shows "str_strip (ws1 @ p @ ws2) = str_strip p"
proof (cases "list_all py_isspace p")
  case True
  then have "str_lstrip (p @ ws2) = []" "str_lstrip p = []"
    using assms(2) by (simp_all add: str_lstrip_def list_all_iff)
  then show ?thesis using assms(1) by (simp add: str_strip_def str_lstrip_space_append)
next
  case False
  then obtain x where "x \<in> set p" "\<not> py_isspace x" by (auto simp: list_all_iff)
  then have "str_lstrip (p @ ws2) = str_lstrip p @ ws2"
    by (auto simp: str_lstrip_def dropWhile_append1)
  then show ?thesis
    using assms by (simp add: str_strip_def str_lstrip_space_append str_rstrip_append_space)
qed

lemma stripped_part_spaces:
  "list_all py_isspace ws1 \<Longrightarrow> list_all py_isspace ws2 \<Longrightarrow>
     stripped_part (ws1 @ p @ ws2) = stripped_part p"
  by (simp add: stripped_part_def str_strip_spaces)

lemma str_strip_all_space: "list_all py_isspace p \<Longrightarrow> str_strip p = []"
  by (auto simp: str_strip_def str_lstrip_def str_rstrip_def list_all_iff dropWhile_eq_Nil_conv dest: set_dropWhileD)

lemma stripped_part_all_space: "list_all py_isspace p \<Longrightarrow> stripped_part p = []"
  by (simp add: stripped_part_def str_strip_all_space str_lstrip_chars_def)

lemma str_rstrip_last: "str_rstrip s \<noteq> [] \<Longrightarrow> \<not> py_isspace (last (str_rstrip s))"
proof -
  assume a: "str_rstrip s \<noteq> []"
  then have n: "dropWhile py_isspace (rev s) \<noteq> []" by (simp add: str_rstrip_def)
  have "last (str_rstrip s) = hd (dropWhile py_isspace (rev s))"
    using n by (simp add: str_rstrip_def last_rev)
  then show ?thesis using hd_dropWhile[OF n] by simp
qed

lemma str_strip_hd: "str_strip s \<noteq> [] \<Longrightarrow> \<not> py_isspace (hd (str_strip s))"
proof -
  assume a: "str_strip s \<noteq> []"
  let ?l = "dropWhile py_isspace s"
  have l: "?l \<noteq> []" using a by (auto simp: str_strip_def str_rstrip_def str_lstrip_def dest: set_dropWhileD)
  have h: "\<not> py_isspace (hd ?l)" using hd_dropWhile[OF l] .
  obtain x xs where x: "?l = x # xs" using l by (cases ?l) auto
  with h have nx: "\<not> py_isspace x" by simp
  have "\<exists>ys. str_rstrip (x # xs) = x # ys"
  proof (cases "list_all py_isspace xs")
    case True
    then have "dropWhile py_isspace (rev xs @ [x]) = dropWhile py_isspace [x]"
      by (intro dropWhile_append2) (simp add: list_all_iff)
    then have "dropWhile py_isspace (rev xs @ [x]) = [x]"
      using nx by simp
    then show ?thesis by (simp add: str_rstrip_def)
  next
    case False
    then obtain y where "y \<in> set (rev xs)" "\<not> py_isspace y" by (auto simp: list_all_iff)
    then have "dropWhile py_isspace (rev xs @ [x]) = dropWhile py_isspace (rev xs) @ [x]"
      by (auto simp: dropWhile_append1)
    then show ?thesis by (simp add: str_rstrip_def)
  qed
  then show ?thesis using nx x by (auto simp: str_strip_def str_lstrip_def)
qed

lemma stripped_part_eq_strip: "stripped_part p = str_strip p"
proof (cases "str_strip p")
  case Nil
  then show ?thesis by (simp add: stripped_part_def str_lstrip_chars_def)
next
  case (Cons x xs)
  then have "\<not> py_isspace x" using str_strip_hd[of p] by simp
  then have "x \<noteq> CR" "x \<noteq> LF" by (auto simp: py_isspace_def CR_def LF_def)
  then show ?thesis using Cons by (simp add: stripped_part_def str_lstrip_chars_def)
qed

lemma stripped_part_last: "stripped_part p \<noteq> [] \<Longrightarrow> \<not> py_isspace (last (stripped_part p))"
  using str_rstrip_last[of "str_lstrip p"] by (simp add: stripped_part_eq_strip str_strip_def)

lemma stripped_part_hd: "stripped_part p \<noteq> [] \<Longrightarrow> \<not> py_isspace (hd (stripped_part p))"
  using str_strip_hd[of p] by (simp add: stripped_part_eq_strip)

lemma replace_at_last:
  "s \<noteq> [] \<Longrightarrow> last s \<noteq> LF \<Longrightarrow>
     replace_at s [CR, LF] [LF] \<noteq> [] \<and> last (replace_at s [CR, LF] [LF]) = last s"
proof (induction s "[CR, LF]" "[LF]" rule: replace_at.induct)
  case (1 s)
  show ?case
  proof (cases "str_find s [CR, LF]")
    case None
    then show ?thesis using 1 by (simp add: replace_at.simps)
  next
    case (Some i)
    let ?r = "drop (i + length [CR, LF]) s"
    have d: "s = take i s @ [CR, LF] @ ?r" using str_find_Some_decomp[OF Some] .
    have r: "?r \<noteq> []"
    proof
      assume "?r = []"
      then have "s = take i s @ [CR, LF]" using d by simp
      then have "last s = LF" by (metis last_appendR last.simps list.distinct(1) not_Cons_self2 snoc_eq_iff_butlast last_snoc append_Cons append_Nil)
      then show False using 1 by simp
    qed
    have ls: "last s = last ?r" using d r by (metis last_appendR append_is_Nil_conv)
    from 1(1)[OF _ Some r] ls 1(3)
    have "replace_at ?r [CR, LF] [LF] \<noteq> [] \<and> last (replace_at ?r [CR, LF] [LF]) = last ?r"
      by simp
    then show ?thesis using Some ls by (simp add: replace_at.simps[of s])
  qed
qed


lemma str_replace_Nil: "str_replace [] [CR, LF] [LF] = []"
  by (simp add: str_replace_def replace_at.simps)

lemma headers_body_last:
  assumes "headers_body (stripped_part part) = Inr (headers, body)" "body \<noteq> []"
  shows "\<not> py_isspace (last body)"
proof (cases "str_find (stripped_part part) [LF, LF]")
  case None
  then show ?thesis using assms by (simp add: headers_body_def str_partition_def str_replace_Nil)
next
  case (Some i)
  let ?s = "stripped_part part"
  let ?b = "drop (i + length [LF, LF]) ?s"
  have b: "body = str_replace ?b [CR, LF] [LF]"
    using assms(1) Some by (simp add: headers_body_def str_partition_def)
  have bn: "?b \<noteq> []" using assms(2) b by (auto simp: str_replace_Nil)
  then have sn: "?s \<noteq> []" by auto
  have l: "last ?b = last ?s" using bn by (simp add: last_drop)
  have ns: "\<not> py_isspace (last ?s)" using stripped_part_last[OF sn] .
  then have "last ?b \<noteq> LF" using l by (auto simp: py_isspace_def LF_def)
  from replace_at_last[OF bn this] have "last body = last ?b"
    using b by (simp add: str_replace_def)
  then show ?thesis using l ns by simp
qed

lemma decode_part_cong: "stripped_part p = stripped_part q \<Longrightarrow> decode_part L p = decode_part L q"
  by (simp add: decode_part_def)

lemma sublist_stripped_part: "sublist (stripped_part part) part"
proof -
  have a: "suffix (str_lstrip part) part"
    by (simp add: str_lstrip_def suffix_dropWhile)
  have "rev (str_lstrip part) =
          takeWhile py_isspace (rev (str_lstrip part)) @ dropWhile py_isspace (rev (str_lstrip part))"
    by simp
  then have "str_lstrip part = str_rstrip (str_lstrip part) @ rev (takeWhile py_isspace (rev (str_lstrip part)))"
    unfolding str_rstrip_def by (metis rev_append rev_rev_ident)
  then have b: "prefix (str_strip part) (str_lstrip part)"
    unfolding str_strip_def by (metis prefixI)
  from a b show ?thesis
    unfolding stripped_part_eq_strip
    by (meson prefix_imp_sublist suffix_imp_sublist sublist_order.order_trans)
qed

lemma decode_body_empty: "decode_body L encoding [] = Inr
   (case (if encoding = str ''base64'' then b64decode L []
            else if encoding = str ''quoted-printable'' then quopri_decodestring L []
            else Some []) of
      Some decoded \<Rightarrow> (decoded, [])
    | None \<Rightarrow> ([], [Warning_DecodingError]))"
  by (simp add: decode_body_def utf8_encode_def split: option.splits)

lemmas eval_defs =
  process_part_def decode_part_def stripped_part_def str_strip_def str_lstrip_def str_rstrip_def
  str_lstrip_chars_def py_isspace_def LF_def CR_def str_def headers_body_def str_partition_def
  str_replace_def header_content_type_def header_encoding_def content_type_match_def
  encoding_match_def match_here_def match_literal_def re_ignorecase_eq_def ascii_lower_def
  decode_body_def utf8_encode_def utf8_encode_char_def startswith_def register_resource_def
  location_match_def cid_match_def make_data_uri_def b64_char_def decode_text_def
  str_lower_def lower_char_def new_converter_def replace_at.simps split_at.simps Let_def

section \<open>Facts about the codecs\<close>

lemma utf8_encode_char_valid:
  "c < 0x110000 \<Longrightarrow> \<not> is_surrogate c \<Longrightarrow> \<exists>bs. utf8_encode_char c = Some bs"
  by (simp add: utf8_encode_char_def)

lemma those_map_Some:
  "(\<And>x. x \<in> set xs \<Longrightarrow> \<exists>y. f x = Some y) \<Longrightarrow> \<exists>ys. those (map f xs) = Some ys"
  by (induction xs) (auto split: option.splits)

lemma utf8_encode_valid: "valid_text s \<Longrightarrow> \<exists>raw. utf8_encode s = Some raw"
proof -
  assume "valid_text s"
  then have "\<And>c. c \<in> set s \<Longrightarrow> \<exists>bs. utf8_encode_char c = Some bs"
    by (auto simp: valid_text_def list_all_iff intro: utf8_encode_char_valid)
  from those_map_Some[of s utf8_encode_char, OF this]
  show ?thesis by (auto simp: utf8_encode_def)
qed

section \<open>Whitespace around a part\<close>

text \<open>
  Claim C10. \<^verbatim>\<open>_process_part\<close> strips the raw part before it splits it: whitespace before
  and after a part changes nothing of what the method does with it, the stripped text
  neither starts nor ends with whitespace, and neither does the end of the body that is
  decoded (so the newline before the next boundary marker is in no decoded content).
\<close>

theorem part_whitespace_ignored:
  assumes "list_all py_isspace ws1" and "list_all py_isspace ws2"
  shows "process_part L (ws1 @ part @ ws2) st = process_part L part st \<and>
     decode_part L (ws1 @ part @ ws2) = decode_part L part \<and>
     (stripped_part part \<noteq> [] \<longrightarrow>
        \<not> py_isspace (hd (stripped_part part)) \<and> \<not> py_isspace (last (stripped_part part))) \<and>
     (\<forall>headers body. headers_body (stripped_part part) = Inr (headers, body) \<and> body \<noteq> []
        \<longrightarrow> \<not> py_isspace (last body))"
proof -
  have d: "decode_part L (ws1 @ part @ ws2) = decode_part L part"
    using assms by (intro decode_part_cong stripped_part_spaces)
  then have "process_part L (ws1 @ part @ ws2) st = process_part L part st"
    by (simp add: process_part_def)
  then show ?thesis
    using d stripped_part_hd stripped_part_last headers_body_last by blast
qed

theorem part_whitespace_ignored_witness:
  "\<forall>L st. list_all py_isspace [LF, 32] \<and> list_all py_isspace [CR, LF] \<and>
     process_part L ([LF, 32] @ (str ''Content-Location: a.png'' @ [LF, LF] @ str ''PNG'') @ [CR, LF]) st
       = process_part L (str ''Content-Location: a.png'' @ [LF, LF] @ str ''PNG'') st \<and>
     process_part L (str ''Content-Location: a.png'' @ [LF, LF] @ str ''PNG'') st
       = Inr (st\<lparr>url_to_data_uri :=
                AList.update (str ''a.png'') (str ''data:application/octet-stream;base64,UE5H'')
                  (url_to_data_uri st)\<rparr>)"
proof (intro allI)
  fix L st
  have w: "list_all py_isspace [LF, 32]" "list_all py_isspace [CR, LF]"
    by (simp_all add: py_isspace_def LF_def CR_def)
  have e: "process_part L (str ''Content-Location: a.png'' @ [LF, LF] @ str ''PNG'') st
       = Inr (st\<lparr>url_to_data_uri :=
                AList.update (str ''a.png'') (str ''data:application/octet-stream;base64,UE5H'')
                  (url_to_data_uri st)\<rparr>)"
    by (simp add: eval_defs)
  from part_whitespace_ignored[OF w, of L "str ''Content-Location: a.png'' @ [LF, LF] @ str ''PNG''" st]
  show "list_all py_isspace [LF, 32] \<and> list_all py_isspace [CR, LF] \<and>
     process_part L ([LF, 32] @ (str ''Content-Location: a.png'' @ [LF, LF] @ str ''PNG'') @ [CR, LF]) st
       = process_part L (str ''Content-Location: a.png'' @ [LF, LF] @ str ''PNG'') st \<and>
     process_part L (str ''Content-Location: a.png'' @ [LF, LF] @ str ''PNG'') st
       = Inr (st\<lparr>url_to_data_uri :=
                AList.update (str ''a.png'') (str ''data:application/octet-stream;base64,UE5H'')
                  (url_to_data_uri st)\<rparr>)"
    using w e by simp
qed

section \<open>The split of a part into header block and body\<close>

text \<open>
  Claim C8 says that a part without blank-line separator has an empty header block and
  the whole text as its body. \<^verbatim>\<open>part.partition("\n\n")\<close> returns \<open>(part, '', '')\<close> when the
  separator is absent, so the method does the opposite: the part below has no separator,
  its whole text is the header block, in which the location header is found, and its body
  is empty.
\<close>

theorem part_without_separator_counterexample:
  "str_find (str ''Content-Location: a'') [LF, LF] = None \<and>
   headers_body (stripped_part (str ''Content-Location: a'')) = Inr (str ''Content-Location: a'', []) \<and>
   headers_body (stripped_part (str ''Content-Location: a'')) \<noteq> Inr ([], str ''Content-Location: a'') \<and>
   location_match (str ''Content-Location: a'') = Some (str ''a'')"
  by (simp add: eval_defs)

text \<open>
  Claim C8, amended. For every raw part without blank-line separator that is not empty
  once stripped, the whole stripped text (with \<open>\r\n\<close> replaced by \<open>\n\<close>) is the header
  block, in which the four headers are searched, and the body is empty: the empty text is
  what is transfer-decoded.
\<close>

theorem part_without_separator:
  assumes "\<not> sublist [LF, LF] part" and "stripped_part part \<noteq> []"
  shows "\<exists>headers decoded warnings.
     headers = str_replace (stripped_part part) [CR, LF] [LF] \<and>
     headers_body (stripped_part part) = Inr (headers, []) \<and>
     decode_body L (header_encoding headers) [] = Inr (decoded, warnings) \<and>
     decode_part L part = Inr (Some (header_content_type headers, decoded, headers, warnings))"
proof -
  have "\<not> sublist [LF, LF] (stripped_part part)"
    using assms(1) sublist_stripped_part sublist_order.order_trans by blast
  then have f: "str_find (stripped_part part) [LF, LF] = None"
    by (simp add: str_find_None_iff)
  let ?h = "str_replace (stripped_part part) [CR, LF] [LF]"
  have hb: "headers_body (stripped_part part) = Inr (?h, [])"
    using f by (simp add: headers_body_def str_partition_def str_replace_Nil)
  obtain decoded warnings where d: "decode_body L (header_encoding ?h) [] = Inr (decoded, warnings)"
    using decode_body_empty[of L "header_encoding ?h"] by (metis surj_pair)
  have "decode_part L part = Inr (Some (header_content_type ?h, decoded, ?h, warnings))"
    using assms(2) hb d by (simp add: decode_part_def Let_def)
  then show ?thesis using hb d by blast
qed

theorem part_without_separator_witness:
  "\<forall>L. \<not> sublist [LF, LF] (str ''Content-Location: a'') \<and>
        stripped_part (str ''Content-Location: a'') \<noteq> [] \<and>
        decode_part L (str ''Content-Location: a'') =
          Inr (Some (str ''application/octet-stream'', [], str ''Content-Location: a'', []))"
proof
  fix L
  have f: "str_find (str ''Content-Location: a'') [LF, LF] = None"
    by (simp add: str_def LF_def)
  then have n: "\<not> sublist [LF, LF] (str ''Content-Location: a'')"
    by (simp add: str_find_None_iff)
  have s: "stripped_part (str ''Content-Location: a'') = str ''Content-Location: a''"
    by (simp add: eval_defs)
  then have ne: "stripped_part (str ''Content-Location: a'') \<noteq> []" by (simp add: str_def)
  have r: "str_replace (str ''Content-Location: a'') [CR, LF] [LF] = str ''Content-Location: a''"
    by (simp add: eval_defs)
  have c: "header_content_type (str ''Content-Location: a'') = str ''application/octet-stream''"
    by (simp add: eval_defs)
  have e: "header_encoding (str ''Content-Location: a'') = str ''7bit''"
    by (simp add: eval_defs)
  have d: "decode_body L (str ''7bit'') [] = Inr ([], [])"
    by (simp add: eval_defs)
  from part_without_separator[OF n ne, of L]
  show "\<not> sublist [LF, LF] (str ''Content-Location: a'') \<and>
        stripped_part (str ''Content-Location: a'') \<noteq> [] \<and>
        decode_part L (str ''Content-Location: a'') =
          Inr (Some (str ''application/octet-stream'', [], str ''Content-Location: a'', []))"
    using n ne s r c e d by auto
qed

section \<open>The rewriting of the links\<close>

lemma replace_loop_fold:
  "set ks \<subseteq> fst ` set d \<Longrightarrow>
     replace_loop d ks html =
       Inr (foldl (\<lambda>h (k, uri). str_replace h k uri) html (map (\<lambda>k. (k, the (map_of d k))) ks))"
proof (induction ks arbitrary: html)
  case Nil
  then show ?case by simp
next
  case (Cons k ks)
  then have "k \<in> fst ` set d" by simp
  then obtain v where "map_of d k = Some v"
    by (metis domD dom_map_of_conv_image_fst)
  then show ?case using Cons by simp
qed

lemma sorted_keys_set: "set (sorted_keys d) = fst ` set d"
  by (simp add: sorted_keys_def)

lemma sorted_keys_distinct: "distinct (map fst d) \<Longrightarrow> distinct (sorted_keys d)"
  by (simp add: sorted_keys_def)

lemma sorted_keys_sorted: "sorted_wrt (\<lambda>a b. length a \<ge> length b) (sorted_keys d)"
proof -
  have "sorted (map (\<lambda>k. - int (length k)) (sorted_keys d))"
    by (simp add: sorted_keys_def)
  then show ?thesis by (simp add: sorted_map sorted_wrt_iff_nth_less)
qed

lemma longer_first:
  assumes s: "sorted_wrt (\<lambda>a b. length (fst a) \<ge> length (fst b)) items"
      and a: "p1 \<in> set items" and b: "p2 \<in> set items" and l: "length (fst p1) < length (fst p2)"
  shows "\<exists>xs ys zs. items = xs @ p2 # ys @ p1 # zs"
proof -
  from b obtain xs rest where i: "items = xs @ p2 # rest" by (meson split_list)
  have "p1 \<notin> set xs"
  proof
    assume "p1 \<in> set xs"
    then have "length (fst p1) \<ge> length (fst p2)" using s i by (auto simp: sorted_wrt_append)
    then show False using l by simp
  qed
  moreover have "p1 \<noteq> p2" using l by auto
  ultimately have "p1 \<in> set rest" using a i by auto
  then obtain ys zs where "rest = ys @ p1 # zs" by (meson split_list)
  then show ?thesis using i by blast
qed

lemma split_at_nonempty: "split_at s sep \<noteq> []"
  by (simp add: split_at.simps[of s] split: option.splits)

lemma str_replace_join_split:
  "old \<noteq> [] \<Longrightarrow> str_replace s old new = str_join new (split_at s old)"
proof (induction s old new rule: replace_at.induct)
  case (1 s old new)
  show ?case
  proof (cases "str_find s old")
    case None
    then show ?thesis
      using 1(2) by (simp add: str_replace_def replace_at.simps[of s] split_at.simps[of s])
  next
    case (Some i)
    let ?r = "drop (i + length old) s"
    have ih: "str_replace ?r old new = str_join new (split_at ?r old)"
      using 1(1)[OF 1(2) Some 1(2)] .
    obtain x xs where c: "split_at ?r old = x # xs"
      using split_at_nonempty[of ?r old] by (cases "split_at ?r old") auto
    show ?thesis
      using 1(2) Some ih c by (simp add: str_replace_def replace_at.simps[of s] split_at.simps[of s])
  qed
qed


lemma replace_entries_append:
  "replace_entries html (xs @ (k, uri) # ys) = replace_entries (str_replace (replace_entries html xs) k uri) ys"
  by (simp add: replace_entries_def)

lemma replace_entries_absent:
  "list_all (\<lambda>(k, uri). \<not> sublist k h) items \<Longrightarrow> replace_entries h items = h"
  unfolding replace_entries_def
  by (induction items) (auto simp: str_replace_absent)

lemma entries_of_dict:
  assumes "distinct (map fst d)"
  shows "\<exists>items. map fst items = sorted_keys d \<and> set items = set d \<and> distinct (map fst items) \<and>
     sorted_wrt (\<lambda>a b. length (fst a) \<ge> length (fst b)) items \<and>
     replace_links d html = Inr (replace_entries html items)"
proof -
  define items where "items = map (\<lambda>k. (k, the (map_of d k))) (sorted_keys d)"
  have f: "map fst items = sorted_keys d" by (simp add: items_def comp_def)
  have st: "set items = set d"
  proof
    show "set items \<subseteq> set d"
    proof
      fix p assume "p \<in> set items"
      then obtain k where k: "k \<in> fst ` set d" "p = (k, the (map_of d k))"
        by (auto simp: items_def sorted_keys_set)
      then obtain v where "map_of d k = Some v" by (metis domD dom_map_of_conv_image_fst)
      then show "p \<in> set d" using k by (auto dest: map_of_SomeD)
    qed
    show "set d \<subseteq> set items"
    proof
      fix p assume p: "p \<in> set d"
      then have "map_of d (fst p) = Some (snd p)" using assms by simp
      moreover have "fst p \<in> set (sorted_keys d)" using p by (simp add: sorted_keys_set)
      ultimately show "p \<in> set items" by (force simp: items_def)
    qed
  qed
  have di: "distinct (map fst items)" using f assms by (simp add: sorted_keys_distinct)
  have so: "sorted_wrt (\<lambda>a b. length (fst a) \<ge> length (fst b)) items"
  proof -
    have "sorted_wrt (\<lambda>a b. length a \<ge> length b) (map fst items)"
      using sorted_keys_sorted[of d] f by simp
    then show ?thesis by (simp add: sorted_wrt_map)
  qed
  have rl: "replace_links d html = Inr (replace_entries html items)"
    unfolding replace_links_def items_def replace_entries_def
    by (rule replace_loop_fold) (simp add: sorted_keys_set)
  show ?thesis
    by (rule exI[of _ items]) (intro conjI f st di so rl)
qed

section \<open>The structural errors\<close>

lemma match_literal_eq: "match_literal (=) lit s = Some r \<longleftrightarrow> s = lit @ r"
proof
  assume "match_literal (=) lit s = Some r"
  then have "length lit \<le> length s" "lit = take (length lit) s" "r = drop (length lit) s"
    by (auto simp: match_literal_def list.rel_eq split: if_splits)
  then show "s = lit @ r" by (metis append_take_drop_id)
next
  assume "s = lit @ r"
  then show "match_literal (=) lit s = Some r"
    by (simp add: match_literal_def list.rel_eq)
qed

lemma match_here_closed:
  assumes "\<not> cls q"
  shows "match_here (=) lit cls (Some q) s = Some g \<longleftrightarrow>
           g \<noteq> [] \<and> (\<forall>c\<in>set g. cls c) \<and> (\<exists>post. s = lit @ g @ q # post)"
proof
  assume m: "match_here (=) lit cls (Some q) s = Some g"
  then obtain r where r: "match_literal (=) lit s = Some r"
    by (auto simp: match_here_def split: option.splits)
  then have s: "s = lit @ r" by (simp add: match_literal_eq)
  from m r have g: "g = takeWhile cls r" "g \<noteq> []" and p: "prefix [q] (dropWhile cls r)"
    by (auto simp: match_here_def Let_def split: if_splits)
  from p obtain post where "dropWhile cls r = q # post" by (auto simp: prefix_def)
  then have "r = g @ q # post" using g(1) by (metis takeWhile_dropWhile_id)
  moreover have "\<forall>c\<in>set g. cls c" using g(1) by (auto dest: set_takeWhileD)
  ultimately show "g \<noteq> [] \<and> (\<forall>c\<in>set g. cls c) \<and> (\<exists>post. s = lit @ g @ q # post)"
    using g(2) s by auto
next
  assume a: "g \<noteq> [] \<and> (\<forall>c\<in>set g. cls c) \<and> (\<exists>post. s = lit @ g @ q # post)"
  then obtain post where s: "s = lit @ (g @ q # post)" by auto
  then have r: "match_literal (=) lit s = Some (g @ q # post)" by (simp only: match_literal_eq)
  have t: "takeWhile cls (g @ q # post) = g" using a assms by (simp add: takeWhile_tail)
  have d: "dropWhile cls (g @ q # post) = q # post" using a assms by (simp add: dropWhile_append3)
  show "match_here (=) lit cls (Some q) s = Some g"
    using a r t d by (simp add: match_here_def)
qed

lemma re_search_None_iff:
  "re_search eq lit cls closing s = None \<longleftrightarrow>
     (\<forall>t. suffix t s \<longrightarrow> match_here eq lit cls closing t = None)"
proof (induction s)
  case Nil
  then show ?case by simp
next
  case (Cons c s)
  show ?case
    by (auto simp: Cons.IH suffix_Cons split: option.splits)
qed

lemma re_search_Some:
  "re_search eq lit cls closing s = Some g \<Longrightarrow>
     \<exists>t. suffix t s \<and> match_here eq lit cls closing t = Some g"
proof (induction s)
  case Nil
  then show ?case by auto
next
  case (Cons c s)
  show ?case
  proof (cases "match_here eq lit cls closing (c # s)")
    case None
    then have "re_search eq lit cls closing s = Some g" using Cons.prems by simp
    from Cons.IH[OF this] show ?thesis by (auto simp: suffix_Cons)
  next
    case (Some a)
    then have "a = g" using Cons.prems by simp
    then show ?thesis using Some by auto
  qed
qed

lemma match_here_nonempty: "match_here eq lit cls closing t = Some g \<Longrightarrow> g \<noteq> []"
  by (auto simp: match_here_def Let_def split: option.splits if_splits)

lemma parse_boundary_nonempty: "parse_boundary h = Some b \<Longrightarrow> b \<noteq> []"
  unfolding parse_boundary_def by (auto dest!: re_search_Some match_here_nonempty)

lemma parse_boundary_None_iff:
  "parse_boundary h = None \<longleftrightarrow> \<not> (\<exists>before v after. boundary_parameter h before v after)"
proof
  assume n: "parse_boundary h = None"
  show "\<not> (\<exists>before v after. boundary_parameter h before v after)"
  proof
    assume "\<exists>before v after. boundary_parameter h before v after"
    then obtain before v after where
      h: "h = before @ str ''boundary=\"'' @ v @ [34] @ after" and v: "v \<noteq> []" "34 \<notin> set v"
      by (auto simp: boundary_parameter_def)
    let ?t = "str ''boundary=\"'' @ v @ 34 # after"
    have "suffix ?t h" using h by (simp add: suffix_def)
    moreover have "match_here (=) (str ''boundary=\"'') (\<lambda>c. c \<noteq> 34) (Some 34) ?t = Some v"
      using v by (subst match_here_closed) auto
    ultimately show False using n by (auto simp: parse_boundary_def re_search_None_iff)
  qed
next
  assume a: "\<not> (\<exists>before v after. boundary_parameter h before v after)"
  show "parse_boundary h = None"
  proof (rule ccontr)
    assume "parse_boundary h \<noteq> None"
    then obtain g where "parse_boundary h = Some g" by auto
    then obtain t where t: "suffix t h"
       "match_here (=) (str ''boundary=\"'') (\<lambda>c. c \<noteq> 34) (Some 34) t = Some g"
      unfolding parse_boundary_def by (auto dest: re_search_Some)
    from t(2) have g: "g \<noteq> []" "\<forall>c\<in>set g. c \<noteq> 34"
      and "\<exists>post. t = str ''boundary=\"'' @ g @ 34 # post"
      by (simp_all add: match_here_closed)
    then obtain post where p: "t = str ''boundary=\"'' @ g @ 34 # post" by auto
    from t(1) obtain before where "h = before @ t" by (auto simp: suffix_def)
    then have "boundary_parameter h before g post"
      using p g by (auto simp: boundary_parameter_def)
    then show False using a by blast
  qed
qed


lemma extract_parts_cases:
  "extract_parts content st =
     (case str_find content [LF, LF] of
        None \<Rightarrow> Inl InvalidMHTMLStructure
      | Some header_end \<Rightarrow>
          (case parse_boundary (take header_end content) of
             None \<Rightarrow> Inl NoBoundaryFound
           | Some b \<Rightarrow>
               Inr (butlast (tl (split_at content (str ''--'' @ b))), st\<lparr>boundary := Some b\<rparr>)))"
  by (auto simp: extract_parts_def str_split_def str_def Let_def
      dest: parse_boundary_nonempty split: option.splits)

lemma decode_body_error: "decode_body L encoding body = Inl e \<Longrightarrow> e = UnicodeEncodeError"
  by (auto simp: decode_body_def split: option.splits if_splits)

lemma headers_body_total: "\<exists>headers body. headers_body part = Inr (headers, body)"
  by (simp add: headers_body_def str_partition_def split: option.splits)

lemma decode_part_error: "decode_part L part = Inl e \<Longrightarrow> e = UnicodeEncodeError"
proof -
  assume a: "decode_part L part = Inl e"
  obtain headers body where "headers_body (stripped_part part) = Inr (headers, body)"
    using headers_body_total by blast
  then show ?thesis
    using a by (auto simp: decode_part_def Let_def split: if_splits sum.splits dest: decode_body_error)
qed

lemma process_part_error: "process_part L part st = Inl e \<Longrightarrow> e = UnicodeEncodeError"
  by (auto simp: process_part_def Let_def split: sum.splits option.splits if_splits
      dest: decode_part_error)

lemma process_parts_error: "process_parts L parts st = Inl e \<Longrightarrow> e = UnicodeEncodeError"
proof (induction parts arbitrary: st)
  case Nil
  then show ?case by simp
next
  case (Cons p parts)
  then show ?case by (auto split: sum.splits dest: process_part_error)
qed

lemma replace_links_total: "\<exists>final_html. replace_links d html = Inr final_html"
  unfolding replace_links_def using replace_loop_fold[of "sorted_keys d" d html]
  by (simp add: sorted_keys_set)

lemma convert_structural:
  assumes "structural_error e"
  shows "convert L content = Inl e \<longleftrightarrow> extract_parts content new_converter = Inl e"
proof (cases "extract_parts content new_converter")
  case (Inl a)
  then show ?thesis by (simp add: convert_def)
next
  case (Inr r)
  obtain parts st where r: "r = (parts, st)" by (cases r)
  have ne: "e \<noteq> UnicodeEncodeError" using assms by (auto simp: structural_error_def)
  have "convert L content \<noteq> Inl e"
  proof (cases "process_parts L parts st")
    case (Inl a)
    then have "a = UnicodeEncodeError" by (rule process_parts_error)
    then show ?thesis using Inr r Inl ne by (simp add: convert_def)
  next
    case st': (Inr st')
    show ?thesis
    proof (cases "main_html st'")
      case None
      then show ?thesis using Inr r st' by (simp add: convert_def)
    next
      case (Some html)
      obtain f where "replace_links (url_to_data_uri st') html = Inr f"
        using replace_links_total by blast
      then show ?thesis using Inr r st' Some by (simp add: convert_def)
    qed
  qed
  then show ?thesis using Inr by simp
qed

text \<open>
  Claim C4. \<^verbatim>\<open>convert\<close> ends with one of the two \<^verbatim>\<open>ValueError\<close>s of \<^verbatim>\<open>_extract_parts\<close>, and
  writes nothing, exactly when the document has no \<open>\n\n\<close> (the first error) or the text
  before its first \<open>\n\n\<close> has no \<open>boundary="..."\<close> parameter with a value that is not
  empty (the second error). In every other case \<^verbatim>\<open>_extract_parts\<close> returns its parts.
\<close>

theorem structural_errors_abort:
  "(convert L content = Inl InvalidMHTMLStructure \<longleftrightarrow> \<not> sublist [LF, LF] content) \<and>
   (convert L content = Inl NoBoundaryFound \<longleftrightarrow>
      sublist [LF, LF] content \<and>
      \<not> (\<exists>before v after. boundary_parameter (header_block_of content) before v after)) \<and>
   ((\<exists>parts st'. extract_parts content st = Inr (parts, st')) \<longleftrightarrow>
      sublist [LF, LF] content \<and>
      (\<exists>before v after. boundary_parameter (header_block_of content) before v after))"
proof (cases "str_find content [LF, LF]")
  case None
  then have n: "\<not> sublist [LF, LF] content" by (simp add: str_find_None_iff)
  have e: "extract_parts content s = Inl InvalidMHTMLStructure" for s
    using None by (simp add: extract_parts_cases)
  have "convert L content = Inl InvalidMHTMLStructure"
    using e by (simp add: convert_structural structural_error_def)
  then show ?thesis using n e by simp
next
  case (Some i)
  then have y: "sublist [LF, LF] content" using str_find_None_iff[of content "[LF, LF]"] by simp
  have hb: "header_block_of content = take i content" using Some by (simp add: header_block_of_def)
  show ?thesis
  proof (cases "parse_boundary (take i content)")
    case None
    then have nb: "\<not> (\<exists>before v after. boundary_parameter (header_block_of content) before v after)"
      using hb by (simp add: parse_boundary_None_iff)
    have e: "extract_parts content s = Inl NoBoundaryFound" for s
      using Some None by (simp add: extract_parts_cases)
    have c1: "convert L content = Inl NoBoundaryFound"
      using e by (simp add: convert_structural structural_error_def)
    then have c2: "convert L content \<noteq> Inl InvalidMHTMLStructure" by simp
    show ?thesis using y nb e c1 c2 by simp
  next
    case b: (Some b)
    then have bp: "\<exists>before v after. boundary_parameter (header_block_of content) before v after"
      using hb parse_boundary_None_iff[of "take i content"] by simp
    have e: "extract_parts content s =
       Inr (butlast (tl (split_at content (str ''--'' @ b))), s\<lparr>boundary := Some b\<rparr>)" for s
      using Some b by (simp add: extract_parts_cases)
    have c1: "convert L content \<noteq> Inl InvalidMHTMLStructure"
      using e[of new_converter] by (simp add: convert_structural structural_error_def)
    have c2: "convert L content \<noteq> Inl NoBoundaryFound"
      using e[of new_converter] by (simp add: convert_structural structural_error_def)
    show ?thesis using y bp e c1 c2 by simp
  qed
qed


theorem structural_errors_abort_witness:
  "\<forall>L. convert L (str ''MIME-Version: 1.0'') = Inl InvalidMHTMLStructure \<and>
        convert L (str ''boundary=X'' @ [LF, LF] @ str ''--X--'') = Inl NoBoundaryFound \<and>
        extract_parts
          (str ''boundary=\"X\"'' @ [LF, LF] @ str ''--X'' @ [LF] @ str ''hi'' @ [LF] @ str ''--X--'')
          new_converter
          = Inr ([[LF] @ str ''hi'' @ [LF]], new_converter\<lparr>boundary := Some (str ''X'')\<rparr>)"
proof
  fix L
  have a: "str_find (str ''MIME-Version: 1.0'') [LF, LF] = None"
    by (simp add: str_def LF_def)
  have b: "extract_parts (str ''boundary=X'' @ [LF, LF] @ str ''--X--'') new_converter
             = Inl NoBoundaryFound"
    by (simp add: extract_parts_def parse_boundary_def match_here_def match_literal_def
        str_def LF_def)
  have c: "extract_parts
          (str ''boundary=\"X\"'' @ [LF, LF] @ str ''--X'' @ [LF] @ str ''hi'' @ [LF] @ str ''--X--'')
          new_converter
          = Inr ([[LF] @ str ''hi'' @ [LF]], new_converter\<lparr>boundary := Some (str ''X'')\<rparr>)"
    by (simp add: extract_parts_def parse_boundary_def match_here_def match_literal_def
        str_split_def str_def LF_def split_at.simps)
  from structural_errors_abort[of L "str ''MIME-Version: 1.0''" new_converter]
  have 1: "convert L (str ''MIME-Version: 1.0'') = Inl InvalidMHTMLStructure"
    using a by (simp add: str_find_None_iff)
  have 2: "convert L (str ''boundary=X'' @ [LF, LF] @ str ''--X--'') = Inl NoBoundaryFound"
    using b by (simp add: convert_def)
  show "convert L (str ''MIME-Version: 1.0'') = Inl InvalidMHTMLStructure \<and>
        convert L (str ''boundary=X'' @ [LF, LF] @ str ''--X--'') = Inl NoBoundaryFound \<and>
        extract_parts
          (str ''boundary=\"X\"'' @ [LF, LF] @ str ''--X'' @ [LF] @ str ''hi'' @ [LF] @ str ''--X--'')
          new_converter
          = Inr ([[LF] @ str ''hi'' @ [LF]], new_converter\<lparr>boundary := Some (str ''X'')\<rparr>)"
    using 1 2 c by simp
qed

section \<open>The splitting of the document into parts\<close>

lemma str_join_Cons: "xs \<noteq> [] \<Longrightarrow> str_join sep (x # xs) = x @ sep @ str_join sep xs"
  by (cases xs) auto

lemma split_at_join: "sep \<noteq> [] \<Longrightarrow> str_join sep (split_at s sep) = s"
proof (induction s sep rule: split_at.induct)
  case (1 s sep)
  show ?case
  proof (cases "str_find s sep")
    case None
    then show ?thesis using 1(2) by (simp add: split_at.simps[of s])
  next
    case (Some i)
    let ?r = "drop (i + length sep) s"
    have ih: "str_join sep (split_at ?r sep) = ?r" using 1(1)[OF 1(2) Some 1(2)] .
    have "split_at s sep = take i s # split_at ?r sep"
      using 1(2) Some by (simp add: split_at.simps[of s])
    then have "str_join sep (split_at s sep) = take i s @ sep @ ?r"
      using ih split_at_nonempty[of ?r sep] by (simp add: str_join_Cons)
    then show ?thesis using str_find_Some_decomp[OF Some] by simp
  qed
qed

lemma str_find_first:
  "sep \<noteq> [] \<Longrightarrow> str_find s sep = Some i \<Longrightarrow> \<not> sublist sep (take i s)"
proof (induction s arbitrary: i)
  case Nil
  then show ?case by simp
next
  case (Cons c s)
  show ?case
  proof (cases "prefix sep (c # s)")
    case True
    then have "i = 0" using Cons.prems by simp
    then show ?thesis using Cons.prems(1) by simp
  next
    case False
    then obtain j where j: "str_find s sep = Some j" "i = Suc j" using Cons.prems by auto
    have a: "\<not> sublist sep (take j s)" using Cons.IH[OF Cons.prems(1) j(1)] .
    have "\<not> prefix sep (c # take j s)"
    proof
      assume "prefix sep (c # take j s)"
      moreover have "prefix (c # take j s) (c # s)" by (simp add: take_is_prefix)
      ultimately have "prefix sep (c # s)" by (rule prefix_order.trans)
      then show False using False by simp
    qed
    then show ?thesis using a j(2) by (simp add: sublist_Cons_right)
  qed
qed

lemma split_at_segments: "sep \<noteq> [] \<Longrightarrow> x \<in> set (split_at s sep) \<Longrightarrow> \<not> sublist sep x"
proof (induction s sep rule: split_at.induct)
  case (1 s sep)
  show ?case
  proof (cases "str_find s sep")
    case None
    then have "x = s" using 1(2,3) by (simp add: split_at.simps[of s])
    then show ?thesis using None by (simp add: str_find_None_iff)
  next
    case (Some i)
    then have "x = take i s \<or> x \<in> set (split_at (drop (i + length sep) s) sep)"
      using 1(2,3) by (simp add: split_at.simps[of s])
    then show ?thesis
      using str_find_first[OF 1(2) Some] 1(1)[OF 1(2) Some 1(2)] by auto
  qed
qed

lemma middle_segments:
  "2 \<le> length segs \<Longrightarrow> segs = hd segs # butlast (tl segs) @ [last segs]"
proof -
  assume a: "2 \<le> length segs"
  then obtain x xs where s: "segs = x # xs" "xs \<noteq> []"
    by (cases segs) (auto simp: Suc_le_eq)
  then have "xs = butlast xs @ [last xs]" by simp
  then show ?thesis using s by simp
qed

lemma process_part_all_space: "list_all py_isspace p \<Longrightarrow> process_part L p st = Inr st"
  by (simp add: process_part_def decode_part_def stripped_part_all_space)

text \<open>
  Claim C5. When \<^verbatim>\<open>_extract_parts\<close> returns, it has split the document at the occurrences
  of \<open>--\<close> followed by the boundary it found: the segments, joined with that marker, are
  the document, no segment contains the marker, and the raw parts returned are the
  segments without the first and the last one, in their order. \<^verbatim>\<open>_process_part\<close> leaves
  the converter as it is for a part that is empty or made of whitespace only.
\<close>

theorem part_splitter:
  assumes "extract_parts content st = Inr (parts, st')"
  shows "\<exists>b segs. boundary st' = Some b \<and> b \<noteq> [] \<and>
      segs = split_at content (str ''--'' @ b) \<and>
      str_join (str ''--'' @ b) segs = content \<and>
      (\<forall>x\<in>set segs. \<not> sublist (str ''--'' @ b) x) \<and>
      parts = butlast (tl segs) \<and>
      (2 \<le> length segs \<longrightarrow> segs = hd segs # parts @ [last segs]) \<and>
      (\<forall>p s. list_all py_isspace p \<longrightarrow> process_part L p s = Inr s)"
proof -
  from assms obtain i b where i: "str_find content [LF, LF] = Some i"
    and b: "parse_boundary (take i content) = Some b"
    and p: "parts = butlast (tl (split_at content (str ''--'' @ b)))"
    and s: "st' = st\<lparr>boundary := Some b\<rparr>"
    by (auto simp: extract_parts_cases split: option.splits)
  let ?sep = "str ''--'' @ b"
  let ?segs = "split_at content ?sep"
  have ne: "?sep \<noteq> []" by (simp add: str_def)
  have 1: "boundary st' = Some b" using s by simp
  have 2: "b \<noteq> []" using b by (rule parse_boundary_nonempty)
  have 3: "str_join ?sep ?segs = content" using ne by (rule split_at_join)
  have 4: "\<forall>x\<in>set ?segs. \<not> sublist ?sep x" using split_at_segments[OF ne] by blast
  have 5: "2 \<le> length ?segs \<longrightarrow> ?segs = hd ?segs # parts @ [last ?segs]"
    using middle_segments[of ?segs] p by simp
  have 6: "\<forall>p s. list_all py_isspace p \<longrightarrow> process_part L p s = Inr s"
    by (simp add: process_part_all_space)
  show ?thesis
    by (rule exI[of _ b], rule exI[of _ ?segs]) (intro conjI 1 2 3 4 p 5 6 refl)
qed

theorem part_splitter_witness:
  "\<forall>L. extract_parts
          (str ''boundary=\"X\"'' @ [LF, LF] @ str ''--X'' @ [LF] @ str ''--X'' @ [LF] @ str ''hi''
             @ [LF] @ str ''--X--'') new_converter
          = Inr ([[LF], [LF] @ str ''hi'' @ [LF]], new_converter\<lparr>boundary := Some (str ''X'')\<rparr>) \<and>
        split_at
          (str ''boundary=\"X\"'' @ [LF, LF] @ str ''--X'' @ [LF] @ str ''--X'' @ [LF] @ str ''hi''
             @ [LF] @ str ''--X--'') (str ''--X'')
          = [str ''boundary=\"X\"'' @ [LF, LF], [LF], [LF] @ str ''hi'' @ [LF], str ''--''] \<and>
        process_part L [LF] new_converter = Inr new_converter"
proof
  fix L
  let ?doc = "str ''boundary=\"X\"'' @ [LF, LF] @ str ''--X'' @ [LF] @ str ''--X'' @ [LF] @ str ''hi''
             @ [LF] @ str ''--X--''"
  have e: "extract_parts ?doc new_converter
          = Inr ([[LF], [LF] @ str ''hi'' @ [LF]], new_converter\<lparr>boundary := Some (str ''X'')\<rparr>)"
    by (simp add: extract_parts_def parse_boundary_def match_here_def match_literal_def
        str_split_def str_def LF_def split_at.simps)
  have s: "split_at ?doc (str ''--X'')
          = [str ''boundary=\"X\"'' @ [LF, LF], [LF], [LF] @ str ''hi'' @ [LF], str ''--'']"
    by (simp add: str_def LF_def split_at.simps)
  have w: "list_all py_isspace [LF]" by (simp add: py_isspace_def LF_def)
  from part_splitter[OF e, of L] w
  have "process_part L [LF] new_converter = Inr new_converter" by blast
  then show "extract_parts ?doc new_converter
          = Inr ([[LF], [LF] @ str ''hi'' @ [LF]], new_converter\<lparr>boundary := Some (str ''X'')\<rparr>) \<and>
        split_at ?doc (str ''--X'')
          = [str ''boundary=\"X\"'' @ [LF, LF], [LF], [LF] @ str ''hi'' @ [LF], str ''--''] \<and>
        process_part L [LF] new_converter = Inr new_converter"
    using e s by simp
qed

section \<open>The order of the replacements\<close>

text \<open>
  Claim C3 says that, since the keys are taken by descending length, the occurrences of
  a key of which another key is a proper prefix are replaced with its own data URI and are
  never corrupted by the replacement of the shorter key. Each \<^verbatim>\<open>str.replace\<close> of the loop
  acts on the whole text produced so far, the data URIs already inserted included. With
  the keys \<open>d\<close> and \<open>d.png\<close>, the text \<open><d.png>\<close> becomes \<open><data:,B>\<close>, the data URI of the longer
  key, and then the replacement of \<open>d\<close> rewrites the first letter of that URI: the result
  is \<open><data:,Aata:,B>\<close>, in which the data URI of \<open>d.png\<close> does not occur.
\<close>

theorem replace_links_prefix_key_counterexample:
  "distinct (map fst [(str ''d'', str ''data:,A''), (str ''d.png'', str ''data:,B'')]) \<and>
   strict_prefix (str ''d'') (str ''d.png'') \<and>
   str_replace (str ''<d.png>'') (str ''d.png'') (str ''data:,B'') = str ''<data:,B>'' \<and>
   replace_links [(str ''d'', str ''data:,A''), (str ''d.png'', str ''data:,B'')] (str ''<d.png>'')
     = Inr (str ''<data:,Aata:,B>'') \<and>
   str_find (str ''<data:,Aata:,B>'') (str ''data:,B'') = None"
proof -
  have k: "sorted_keys [(str ''d'', str ''data:,A''), (str ''d.png'', str ''data:,B'')]
     = [str ''d.png'', str ''d'']"
    by (simp add: sorted_keys_def str_def)
  have r: "replace_links [(str ''d'', str ''data:,A''), (str ''d.png'', str ''data:,B'')] (str ''<d.png>'')
     = Inr (str ''<data:,Aata:,B>'')"
    unfolding replace_links_def k by (simp add: str_def str_replace_def replace_at.simps)
  show ?thesis using r by (simp add: str_def str_replace_def replace_at.simps)
qed

text \<open>
  Claim C3, amended. For every main HTML text and every dictionary (its keys distinct, as
  those of a \<^verbatim>\<open>dict\<close> are), \<^verbatim>\<open>_replace_links\<close> returns the text after one \<^verbatim>\<open>str.replace\<close> per
  entry of the dictionary, each entry used exactly once, the entries taken by descending
  length of their keys. \<^verbatim>\<open>str.replace\<close> is literal: a key that is not empty splits the text
  into pieces that do not contain it, and the result is these pieces joined with the data
  URI. So when a key is a proper prefix of another, the longer key is replaced first, in a
  text in which the shorter key has not been replaced yet; the entries that follow, the
  shorter key among them, are applied to the text so produced, and the result is that
  text when none of their keys occurs in it.
\<close>

theorem replace_links_longest_first:
  assumes "distinct (map fst d)"
  shows "\<exists>items.
     map fst items = sorted_keys d \<and> set items = set d \<and> distinct (map fst items) \<and>
     sorted_wrt (\<lambda>a b. length (fst a) \<ge> length (fst b)) items \<and>
     replace_links d html = Inr (replace_entries html items) \<and>
     (\<forall>h k uri. k \<noteq> [] \<longrightarrow>
        str_replace h k uri = str_join uri (split_at h k) \<and> str_join k (split_at h k) = h \<and>
        (\<forall>x\<in>set (split_at h k). \<not> sublist k x)) \<and>
     (\<forall>k1 u1 k2 u2. (k1, u1) \<in> set d \<and> (k2, u2) \<in> set d \<and> strict_prefix k1 k2 \<longrightarrow>
        (\<exists>xs ys zs. items = xs @ (k2, u2) # ys @ (k1, u1) # zs \<and>
           k1 \<notin> fst ` set xs \<and>
           replace_links d html =
             Inr (replace_entries (str_replace (replace_entries html xs) k2 u2) (ys @ (k1, u1) # zs)) \<and>
           (list_all (\<lambda>(k, uri). \<not> sublist k (str_replace (replace_entries html xs) k2 u2))
              (ys @ (k1, u1) # zs) \<longrightarrow>
            replace_links d html = Inr (str_replace (replace_entries html xs) k2 u2))))"
proof -
  from entries_of_dict[OF assms, of html] obtain items where
    f: "map fst items = sorted_keys d" and st: "set items = set d" and
    di: "distinct (map fst items)" and
    so: "sorted_wrt (\<lambda>a b. length (fst a) \<ge> length (fst b)) items" and
    rl: "replace_links d html = Inr (replace_entries html items)"
    by blast
  have js: "\<forall>h k uri. k \<noteq> [] \<longrightarrow>
        str_replace h k uri = str_join uri (split_at h k) \<and> str_join k (split_at h k) = h \<and>
        (\<forall>x\<in>set (split_at h k). \<not> sublist k x)"
    using str_replace_join_split split_at_join split_at_segments by blast
  have pf: "\<exists>xs ys zs. items = xs @ (k2, u2) # ys @ (k1, u1) # zs \<and>
           k1 \<notin> fst ` set xs \<and>
           replace_links d html =
             Inr (replace_entries (str_replace (replace_entries html xs) k2 u2) (ys @ (k1, u1) # zs)) \<and>
           (list_all (\<lambda>(k, uri). \<not> sublist k (str_replace (replace_entries html xs) k2 u2))
              (ys @ (k1, u1) # zs) \<longrightarrow>
            replace_links d html = Inr (str_replace (replace_entries html xs) k2 u2))"
    if m1: "(k1, u1) \<in> set d" and m2: "(k2, u2) \<in> set d" and sp: "strict_prefix k1 k2"
    for k1 u1 k2 u2
  proof -
    have "length k1 < length k2" using sp by (metis prefix_length_less)
    then obtain xs ys zs where i: "items = xs @ (k2, u2) # ys @ (k1, u1) # zs"
      using longer_first[OF so, of "(k1, u1)" "(k2, u2)"] m1 m2 st by auto
    have a: "k1 \<notin> fst ` set xs" using di unfolding i by auto
    have b: "replace_links d html =
             Inr (replace_entries (str_replace (replace_entries html xs) k2 u2) (ys @ (k1, u1) # zs))"
      using rl unfolding i by (simp only: replace_entries_append)
    have c: "list_all (\<lambda>(k, uri). \<not> sublist k (str_replace (replace_entries html xs) k2 u2))
              (ys @ (k1, u1) # zs) \<longrightarrow>
            replace_links d html = Inr (str_replace (replace_entries html xs) k2 u2)"
    proof
      assume "list_all (\<lambda>(k, uri). \<not> sublist k (str_replace (replace_entries html xs) k2 u2))
              (ys @ (k1, u1) # zs)"
      then have "replace_entries (str_replace (replace_entries html xs) k2 u2) (ys @ (k1, u1) # zs)
                   = str_replace (replace_entries html xs) k2 u2"
        by (rule replace_entries_absent)
      then show "replace_links d html = Inr (str_replace (replace_entries html xs) k2 u2)"
        using b by simp
    qed
    show ?thesis
      by (rule exI[of _ xs], rule exI[of _ ys], rule exI[of _ zs]) (intro conjI i a b c)
  qed
  have pf': "\<forall>k1 u1 k2 u2. (k1, u1) \<in> set d \<and> (k2, u2) \<in> set d \<and> strict_prefix k1 k2 \<longrightarrow>
        (\<exists>xs ys zs. items = xs @ (k2, u2) # ys @ (k1, u1) # zs \<and>
           k1 \<notin> fst ` set xs \<and>
           replace_links d html =
             Inr (replace_entries (str_replace (replace_entries html xs) k2 u2) (ys @ (k1, u1) # zs)) \<and>
           (list_all (\<lambda>(k, uri). \<not> sublist k (str_replace (replace_entries html xs) k2 u2))
              (ys @ (k1, u1) # zs) \<longrightarrow>
            replace_links d html = Inr (str_replace (replace_entries html xs) k2 u2)))"
    using pf by blast
  show ?thesis
    by (rule exI[of _ items]) (intro conjI f st di so rl js pf')
qed

theorem replace_links_longest_first_witness:
  "distinct (map fst [(str ''i.png'', str ''data:,A''), (str ''i.png?2'', str ''data:,B'')]) \<and>
   (str ''i.png'', str ''data:,A'') \<in> set [(str ''i.png'', str ''data:,A''), (str ''i.png?2'', str ''data:,B'')] \<and>
   (str ''i.png?2'', str ''data:,B'') \<in> set [(str ''i.png'', str ''data:,A''), (str ''i.png?2'', str ''data:,B'')] \<and>
   strict_prefix (str ''i.png'') (str ''i.png?2'') \<and>
   str_replace (str ''<i.png?2>'') (str ''i.png?2'') (str ''data:,B'') = str ''<data:,B>'' \<and>
   str_find (str ''<data:,B>'') (str ''i.png'') = None \<and>
   replace_links [(str ''i.png'', str ''data:,A''), (str ''i.png?2'', str ''data:,B'')] (str ''<i.png?2>'')
     = Inr (str ''<data:,B>'')"
proof -
  let ?k1 = "str ''i.png''" and ?u1 = "str ''data:,A''"
  let ?k2 = "str ''i.png?2''" and ?u2 = "str ''data:,B''"
  let ?D = "[(?k1, ?u1), (?k2, ?u2)]"
  let ?html = "str ''<i.png?2>''"
  have d: "distinct (map fst ?D)" by (simp add: str_def)
  have m1: "(?k1, ?u1) \<in> set ?D" by simp
  have m2: "(?k2, ?u2) \<in> set ?D" by simp
  have sp: "strict_prefix ?k1 ?k2" by (simp add: str_def)
  have r2: "str_replace ?html ?k2 ?u2 = str ''<data:,B>''"
    by (simp add: str_def str_replace_def replace_at.simps)
  have f: "str_find (str ''<data:,B>'') ?k1 = None" by (simp add: str_def)
  then have ab: "\<not> sublist ?k1 (str ''<data:,B>'')" by (simp add: str_find_None_iff)
  from replace_links_longest_first[OF d, of ?html] obtain items where
    st: "set items = set ?D" and di: "distinct (map fst items)" and
    pf: "\<forall>k1 u1 k2 u2. (k1, u1) \<in> set ?D \<and> (k2, u2) \<in> set ?D \<and> strict_prefix k1 k2 \<longrightarrow>
        (\<exists>xs ys zs. items = xs @ (k2, u2) # ys @ (k1, u1) # zs \<and>
           k1 \<notin> fst ` set xs \<and>
           replace_links ?D ?html =
             Inr (replace_entries (str_replace (replace_entries ?html xs) k2 u2) (ys @ (k1, u1) # zs)) \<and>
           (list_all (\<lambda>(k, uri). \<not> sublist k (str_replace (replace_entries ?html xs) k2 u2))
              (ys @ (k1, u1) # zs) \<longrightarrow>
            replace_links ?D ?html = Inr (str_replace (replace_entries ?html xs) k2 u2)))"
    by blast
  from pf m1 m2 sp obtain xs ys zs where
    i: "items = xs @ (?k2, ?u2) # ys @ (?k1, ?u1) # zs" and
    c: "list_all (\<lambda>(k, uri). \<not> sublist k (str_replace (replace_entries ?html xs) ?k2 ?u2))
              (ys @ (?k1, ?u1) # zs) \<longrightarrow>
            replace_links ?D ?html = Inr (str_replace (replace_entries ?html xs) ?k2 ?u2)"
    by blast
  have "distinct items" using di by (simp add: distinct_map)
  then have "length items = card (set ?D)" using st by (metis distinct_card)
  moreover have "distinct ?D" using d by (simp add: distinct_map)
  then have "card (set ?D) = length ?D" by (rule distinct_card)
  ultimately have "length items = 2" by simp
  then have e: "xs = []" "ys = []" "zs = []" using i by auto
  have "replace_links ?D ?html = Inr (str ''<data:,B>'')"
    using c ab unfolding e by (simp add: replace_entries_def r2)
  then show ?thesis using d m1 m2 sp r2 f by simp
qed

section \<open>The registration of a resource\<close>

lemma match_literal_D:
  "match_literal eq lit s = Some r \<Longrightarrow> \<exists>name. s = name @ r \<and> list_all2 eq lit name"
proof -
  assume "match_literal eq lit s = Some r"
  then have "list_all2 eq lit (take (length lit) s)" "r = drop (length lit) s"
    by (auto simp: match_literal_def split: if_splits)
  then have "s = take (length lit) s @ r \<and> list_all2 eq lit (take (length lit) s)" by simp
  then show ?thesis by blast
qed

lemma match_here_closed_D:
  assumes "match_here eq lit cls (Some q) s = Some g"
  shows "g \<noteq> [] \<and> (\<forall>c\<in>set g. cls c) \<and>
         (\<exists>name post. s = name @ g @ [q] @ post \<and> list_all2 eq lit name)"
proof -
  from assms obtain r where r: "match_literal eq lit s = Some r"
    by (auto simp: match_here_def split: option.splits)
  from assms r have g: "g = takeWhile cls r" "g \<noteq> []" and p: "prefix [q] (dropWhile cls r)"
    by (auto simp: match_here_def Let_def split: if_splits)
  from p obtain post where "dropWhile cls r = q # post" by (auto simp: prefix_def)
  then have "r = g @ [q] @ post" using g(1) by (metis takeWhile_dropWhile_id append_Cons append_Nil)
  moreover obtain name where "s = name @ r" "list_all2 eq lit name"
    using match_literal_D[OF r] by blast
  moreover have "\<forall>c\<in>set g. cls c" using g(1) by (auto dest: set_takeWhileD)
  ultimately show ?thesis using g(2) by blast
qed

lemma cid_match_D:
  assumes "cid_match headers = Some g"
  shows "g \<noteq> [] \<and> 62 \<notin> set g \<and>
     (\<exists>before name after. headers = before @ name @ g @ [62] @ after \<and>
        list_all2 re_ignorecase_eq (str ''Content-ID: <'') name)"
proof -
  from assms obtain t where t: "suffix t headers"
    "match_here re_ignorecase_eq (str ''Content-ID: <'') (\<lambda>c. c \<noteq> 62) (Some 62) t = Some g"
    unfolding cid_match_def by (auto dest: re_search_Some)
  from match_here_closed_D[OF t(2)] obtain name post where
    g: "g \<noteq> []" "\<forall>c\<in>set g. c \<noteq> 62" and
    n: "t = name @ g @ [62] @ post" "list_all2 re_ignorecase_eq (str ''Content-ID: <'') name"
    by blast
  from t(1) obtain before where "headers = before @ t" by (auto simp: suffix_def)
  then have "headers = before @ name @ g @ [62] @ post" using n(1) by simp
  then show ?thesis using g n(2) by blast
qed

lemma register_resource_main_html:
  "main_html (register_resource content_type decoded headers st) = main_html st"
  by (simp add: register_resource_def Let_def split: option.splits)

lemma register_resource_map:
  "map_of (url_to_data_uri (register_resource content_type decoded headers st)) k =
     (if (\<exists>g. cid_match headers = Some g \<and> k = str ''cid:'' @ str_strip g)
         \<or> (\<exists>g. location_match headers = Some g \<and> k = str_strip g)
      then Some (make_data_uri content_type decoded)
      else map_of (url_to_data_uri st) k)"
  by (auto simp: register_resource_def Let_def update_conv' split: option.splits)

lemma register_resource_distinct:
  "distinct (map fst (url_to_data_uri st)) \<Longrightarrow>
     distinct (map fst (url_to_data_uri (register_resource content_type decoded headers st)))"
  by (simp add: register_resource_def Let_def distinct_update split: option.splits)


text \<open>
  Claim C6. For every part that does not become the main HTML, the data URI is \<open>data:\<close>,
  the content type, \<open>;base64,\<close> and the base64 text of the decoded bytes. With a
  \<open>Content-Location\<close> header the dictionary holds it under the stripped value of the
  header; with a \<open>Content-ID\<close> header it holds it under \<open>cid:\<close> and the identifier that
  stands between the angle brackets; with both headers under both keys. Whatever the
  dictionary held under these keys is overwritten, every other key keeps its value, and
  the main HTML is not touched.
\<close>

theorem resource_registration:
  assumes "decode_part L part = Inr (Some (content_type, decoded, headers, warnings))"
      and "\<not> (startswith content_type (str ''text/html'') \<and> main_html st = None)"
  shows "\<exists>st' data_uri.
     process_part L part st = Inr st' \<and> main_html st' = main_html st \<and>
     data_uri = str ''data:'' @ content_type @ str '';base64,'' @ map unat (b64encode decoded) \<and>
     (\<forall>g. location_match headers = Some g \<longrightarrow>
        map_of (url_to_data_uri st') (str_strip g) = Some data_uri) \<and>
     (\<forall>g. cid_match headers = Some g \<longrightarrow>
        map_of (url_to_data_uri st') (str ''cid:'' @ str_strip g) = Some data_uri \<and>
        g \<noteq> [] \<and> 62 \<notin> set g \<and>
        (\<exists>before name after. headers = before @ name @ g @ [62] @ after \<and>
           list_all2 re_ignorecase_eq (str ''Content-ID: <'') name)) \<and>
     (\<forall>k. (\<forall>g. location_match headers = Some g \<longrightarrow> k \<noteq> str_strip g) \<and>
          (\<forall>g. cid_match headers = Some g \<longrightarrow> k \<noteq> str ''cid:'' @ str_strip g) \<longrightarrow>
          map_of (url_to_data_uri st') k = map_of (url_to_data_uri st) k) \<and>
     (distinct (map fst (url_to_data_uri st)) \<longrightarrow> distinct (map fst (url_to_data_uri st')))"
proof -
  let ?st0 = "st\<lparr>logged := logged st @ warnings\<rparr>"
  let ?st' = "register_resource content_type decoded headers ?st0"
  let ?uri = "str ''data:'' @ content_type @ str '';base64,'' @ map unat (b64encode decoded)"
  have u: "make_data_uri content_type decoded = ?uri" by (simp add: make_data_uri_def)
  have 1: "process_part L part st = Inr ?st'"
    using assms by (auto simp: process_part_def Let_def)
  have 2: "main_html ?st' = main_html st" by (simp add: register_resource_main_html)
  have 3: "\<forall>g. location_match headers = Some g \<longrightarrow>
        map_of (url_to_data_uri ?st') (str_strip g) = Some ?uri"
    by (auto simp: register_resource_map u)
  have 4: "\<forall>g. cid_match headers = Some g \<longrightarrow>
        map_of (url_to_data_uri ?st') (str ''cid:'' @ str_strip g) = Some ?uri \<and>
        g \<noteq> [] \<and> 62 \<notin> set g \<and>
        (\<exists>before name after. headers = before @ name @ g @ [62] @ after \<and>
           list_all2 re_ignorecase_eq (str ''Content-ID: <'') name)"
    using cid_match_D[of headers] by (auto simp: register_resource_map u)
  have 5: "\<forall>k. (\<forall>g. location_match headers = Some g \<longrightarrow> k \<noteq> str_strip g) \<and>
          (\<forall>g. cid_match headers = Some g \<longrightarrow> k \<noteq> str ''cid:'' @ str_strip g) \<longrightarrow>
          map_of (url_to_data_uri ?st') k = map_of (url_to_data_uri st) k"
    by (auto simp: register_resource_map)
  have 6: "distinct (map fst (url_to_data_uri st)) \<longrightarrow> distinct (map fst (url_to_data_uri ?st'))"
    using register_resource_distinct[of ?st0 content_type decoded headers] by simp
  show ?thesis
    by (rule exI[of _ ?st'], rule exI[of _ ?uri]) (intro conjI 1 2 3 4 5 6 refl)
qed

theorem resource_registration_witness:
  "\<forall>L. decode_part L
          (str ''Content-Type: image/png'' @ [LF] @ str ''Content-Location: img/logo.png'' @ [LF]
             @ str ''Content-ID: <abc123>'' @ [LF, LF] @ str ''PNG'')
          = Inr (Some (str ''image/png'', [80, 78, 71],
               str ''Content-Type: image/png'' @ [LF] @ str ''Content-Location: img/logo.png'' @ [LF]
                 @ str ''Content-ID: <abc123>'', [])) \<and>
        \<not> (startswith (str ''image/png'') (str ''text/html'')
             \<and> main_html (new_converter\<lparr>url_to_data_uri := [(str ''cid:abc123'', str ''old'')]\<rparr>) = None) \<and>
        process_part L
          (str ''Content-Type: image/png'' @ [LF] @ str ''Content-Location: img/logo.png'' @ [LF]
             @ str ''Content-ID: <abc123>'' @ [LF, LF] @ str ''PNG'')
          (new_converter\<lparr>url_to_data_uri := [(str ''cid:abc123'', str ''old'')]\<rparr>)
          = Inr (new_converter\<lparr>url_to_data_uri :=
                   [(str ''cid:abc123'', str ''data:image/png;base64,UE5H''),
                    (str ''img/logo.png'', str ''data:image/png;base64,UE5H'')]\<rparr>)"
proof
  fix L
  let ?part = "str ''Content-Type: image/png'' @ [LF] @ str ''Content-Location: img/logo.png'' @ [LF]
             @ str ''Content-ID: <abc123>'' @ [LF, LF] @ str ''PNG''"
  let ?h = "str ''Content-Type: image/png'' @ [LF] @ str ''Content-Location: img/logo.png'' @ [LF]
                 @ str ''Content-ID: <abc123>''"
  let ?st = "new_converter\<lparr>url_to_data_uri := [(str ''cid:abc123'', str ''old'')]\<rparr>"
  have d: "decode_part L ?part = Inr (Some (str ''image/png'', [80, 78, 71], ?h, []))"
    by (simp add: eval_defs)
  have n: "\<not> (startswith (str ''image/png'') (str ''text/html'') \<and> main_html ?st = None)"
    by (simp add: startswith_def str_def)
  have p: "process_part L ?part ?st
          = Inr (new_converter\<lparr>url_to_data_uri :=
                   [(str ''cid:abc123'', str ''data:image/png;base64,UE5H''),
                    (str ''img/logo.png'', str ''data:image/png;base64,UE5H'')]\<rparr>)"
    by (simp add: eval_defs)
  from resource_registration[OF d n] d n p
  show "decode_part L ?part = Inr (Some (str ''image/png'', [80, 78, 71], ?h, [])) \<and>
        \<not> (startswith (str ''image/png'') (str ''text/html'') \<and> main_html ?st = None) \<and>
        process_part L ?part ?st
          = Inr (new_converter\<lparr>url_to_data_uri :=
                   [(str ''cid:abc123'', str ''data:image/png;base64,UE5H''),
                    (str ''img/logo.png'', str ''data:image/png;base64,UE5H'')]\<rparr>)"
    by blast
qed

section \<open>Runs on a text without surrogates\<close>

text \<open>A text without surrogate code point is processed to the end.\<close>

lemma valid_text_sublist: "sublist x s \<Longrightarrow> valid_text s \<Longrightarrow> valid_text x"
  by (auto simp: valid_text_def list_all_iff dest: set_mono_sublist)

lemma split_at_sublist: "x \<in> set (split_at s sep) \<Longrightarrow> sublist x s"
proof (induction s sep rule: split_at.induct)
  case (1 s sep)
  show ?case
  proof (cases "sep = []")
    case True
    then show ?thesis using 1(2) by (simp add: split_at.simps[of s])
  next
    case False
    show ?thesis
    proof (cases "str_find s sep")
      case None
      then show ?thesis using 1(2) False by (simp add: split_at.simps[of s])
    next
      case (Some i)
      then have "x = take i s \<or> x \<in> set (split_at (drop (i + length sep) s) sep)"
        using 1(2) False by (simp add: split_at.simps[of s])
      then show ?thesis
      proof
        assume "x = take i s"
        then show ?thesis by (simp add: take_is_prefix prefix_imp_sublist)
      next
        assume "x \<in> set (split_at (drop (i + length sep) s) sep)"
        then have "sublist x (drop (i + length sep) s)" using 1(1)[OF False Some] by simp
        moreover have "sublist (drop (i + length sep) s) s"
          by (simp add: suffix_drop suffix_imp_sublist)
        ultimately show ?thesis by (rule sublist_order.order_trans)
      qed
    qed
  qed
qed

lemma replace_at_set: "set (replace_at s old new) \<subseteq> set s \<union> set new"
proof (induction s old new rule: replace_at.induct)
  case (1 s old new)
  show ?case
  proof (cases "old = []")
    case True
    then show ?thesis by (simp add: replace_at.simps[of s])
  next
    case False
    show ?thesis
    proof (cases "str_find s old")
      case None
      then show ?thesis using False by (simp add: replace_at.simps[of s])
    next
      case (Some i)
      have "set (replace_at (drop (i + length old) s) old new)
              \<subseteq> set (drop (i + length old) s) \<union> set new"
        using 1[OF False Some] .
      moreover have "set (drop (i + length old) s) \<subseteq> set s" by (rule set_drop_subset)
      moreover have "set (take i s) \<subseteq> set s" by (rule set_take_subset)
      ultimately show ?thesis using False Some by (auto simp: replace_at.simps[of s])
    qed
  qed
qed

lemma headers_body_valid:
  assumes "headers_body part = Inr (headers, body)" and "valid_text part"
  shows "valid_text body"
proof -
  obtain b0 where b: "body = str_replace b0 [CR, LF] [LF]" and s: "set b0 \<subseteq> set part"
  proof (cases "str_find part [LF, LF]")
    case None
    then have "body = str_replace [] [CR, LF] [LF]"
      using assms(1) by (simp add: headers_body_def str_partition_def)
    then show ?thesis using that[of "[]"] by simp
  next
    case (Some i)
    then have "body = str_replace (drop (i + length [LF, LF]) part) [CR, LF] [LF]"
      using assms(1) by (simp add: headers_body_def str_partition_def)
    then show ?thesis using that[of "drop (i + length [LF, LF]) part"] set_drop_subset by fast
  qed
  have "set body \<subseteq> set b0 \<union> {LF}"
    using replace_at_set[of b0 "[CR, LF]" "[LF]"] b by (simp add: str_replace_def)
  then have "set body \<subseteq> set part \<union> {LF}" using s by auto
  then show ?thesis
    using assms(2) by (auto simp: valid_text_def list_all_iff LF_def is_surrogate_def)
qed

lemma decode_body_total:
  "valid_text body \<Longrightarrow> \<exists>decoded warnings. decode_body L encoding body = Inr (decoded, warnings)"
proof -
  assume "valid_text body"
  then obtain raw where "utf8_encode body = Some raw" using utf8_encode_valid by blast
  then show ?thesis by (auto simp: decode_body_def split: option.splits)
qed

lemma decode_part_total: "valid_text part \<Longrightarrow> \<exists>r. decode_part L part = Inr r"
proof -
  assume v: "valid_text part"
  have vs: "valid_text (stripped_part part)"
    using sublist_stripped_part v by (rule valid_text_sublist)
  obtain headers body where hb: "headers_body (stripped_part part) = Inr (headers, body)"
    using headers_body_total by blast
  have "valid_text body" using hb vs by (rule headers_body_valid)
  then obtain decoded warnings where
    "decode_body L (header_encoding headers) body = Inr (decoded, warnings)"
    using decode_body_total by blast
  then show ?thesis using hb by (simp add: decode_part_def Let_def)
qed

lemma process_part_total: "valid_text part \<Longrightarrow> \<exists>st'. process_part L part st = Inr st'"
proof -
  assume "valid_text part"
  then obtain r where "decode_part L part = Inr r" using decode_part_total by blast
  then show ?thesis by (cases r) (auto simp: process_part_def Let_def)
qed

lemma process_parts_total:
  "list_all valid_text parts \<Longrightarrow> \<exists>st'. process_parts L parts st = Inr st'"
proof (induction parts arbitrary: st)
  case Nil
  then show ?case by simp
next
  case (Cons p parts)
  then obtain st1 where "process_part L p st = Inr st1" using process_part_total[of p L st] by auto
  then show ?case using Cons by simp
qed

lemma extract_parts_valid:
  assumes "extract_parts content st = Inr (parts, st')" and "valid_text content"
  shows "list_all valid_text parts"
proof -
  from assms(1) obtain b where p: "parts = butlast (tl (split_at content (str ''--'' @ b)))"
    by (auto simp: extract_parts_cases split: option.splits)
  have "sublist x content" if "x \<in> set parts" for x
  proof -
    have "x \<in> set (tl (split_at content (str ''--'' @ b)))" using that p by (auto dest: in_set_butlastD)
    then have "x \<in> set (split_at content (str ''--'' @ b))"
      using split_at_nonempty[of content "str ''--'' @ b"] by (metis list.set_sel(2))
    then show ?thesis by (rule split_at_sublist)
  qed
  then show ?thesis using assms(2) by (auto simp: list_all_iff intro: valid_text_sublist)
qed

lemma convert_total:
  assumes "valid_text content"
  shows "(\<exists>r. convert L content = Inr r) \<or> (\<exists>e. convert L content = Inl e \<and> structural_error e)"
proof (cases "extract_parts content new_converter")
  case (Inl e)
  then have "structural_error e"
    by (auto simp: extract_parts_cases structural_error_def split: option.splits)
  then show ?thesis using Inl by (simp add: convert_def)
next
  case (Inr r)
  obtain parts st where r: "r = (parts, st)" by (cases r)
  have "list_all valid_text parts" using Inr r assms extract_parts_valid by blast
  then obtain st' where p: "process_parts L parts st = Inr st'" using process_parts_total by blast
  show ?thesis
  proof (cases "main_html st'")
    case None
    then show ?thesis using Inr r p by (simp add: convert_def)
  next
    case (Some html)
    obtain f where "replace_links (url_to_data_uri st') html = Inr f"
      using replace_links_total by blast
    then show ?thesis using Inr r p Some by (simp add: convert_def)
  qed
qed

section \<open>Line endings\<close>




lemma universal_newlines_id: "CR \<notin> set s \<Longrightarrow> universal_newlines s = s"
  by (induction s rule: universal_newlines.induct) auto










section \<open>The main HTML\<close>

lemma decode_part_content_type:
  "decode_part L p = Inr (Some (content_type, decoded, headers, warnings)) \<Longrightarrow>
     part_content_type p = Some content_type"
  by (auto simp: decode_part_def part_content_type_def Let_def split: if_splits sum.splits)

lemma decode_part_skipped: "decode_part L p = Inr None \<Longrightarrow> part_content_type p = None"
  by (auto simp: decode_part_def part_content_type_def Let_def split: if_splits sum.splits)

lemma process_part_register:
  "main_html st \<noteq> None \<or> \<not> is_html_part p \<Longrightarrow> process_part L p st = register_part L p st"
  by (auto simp: process_part_def register_part_def is_html_part_def Let_def
      dest: decode_part_content_type split: sum.splits option.splits)

lemma process_part_html:
  assumes "is_html_part p" and "main_html st = None" and "process_part L p st = Inr st'"
  shows "\<exists>content_type decoded headers warnings.
     decode_part L p = Inr (Some (content_type, decoded, headers, warnings)) \<and>
     startswith content_type (str ''text/html'') \<and>
     st' = st\<lparr>logged := logged st @ warnings, main_html := Some (decode_text decoded)\<rparr>"
proof (cases "decode_part L p")
  case (Inl e)
  then show ?thesis using assms(3) by (simp add: process_part_def)
next
  case (Inr r)
  show ?thesis
  proof (cases r)
    case None
    then have "part_content_type p = None" using Inr by (simp add: decode_part_skipped)
    then show ?thesis using assms(1) by (simp add: is_html_part_def)
  next
    case (Some t)
    obtain content_type decoded headers warnings where t: "t = (content_type, decoded, headers, warnings)"
      by (cases t)
    have d: "decode_part L p = Inr (Some (content_type, decoded, headers, warnings))"
      using Inr Some t by simp
    then have h: "startswith content_type (str ''text/html'')"
      using assms(1) by (auto simp: is_html_part_def dest: decode_part_content_type)
    have "st' = st\<lparr>logged := logged st @ warnings, main_html := Some (decode_text decoded)\<rparr>"
      using assms(2,3) d h by (simp add: process_part_def Let_def)
    then show ?thesis using d h by blast
  qed
qed

lemma register_part_main_html: "register_part L p st = Inr st' \<Longrightarrow> main_html st' = main_html st"
  by (auto simp: register_part_def register_resource_main_html split: sum.splits option.splits)

lemma register_parts_main_html:
  "register_parts L ps st = Inr st' \<Longrightarrow> main_html st' = main_html st"
proof (induction ps arbitrary: st)
  case Nil
  then show ?case by simp
next
  case (Cons p ps)
  then show ?case by (auto split: sum.splits dest: register_part_main_html)
qed

lemma process_parts_after_html:
  "main_html st \<noteq> None \<Longrightarrow> process_parts L ps st = register_parts L ps st"
proof (induction ps arbitrary: st)
  case Nil
  then show ?case by simp
next
  case (Cons p ps)
  have e: "process_part L p st = register_part L p st" using Cons.prems by (simp add: process_part_register)
  show ?case
  proof (cases "register_part L p st")
    case (Inl a)
    then show ?thesis using e by simp
  next
    case (Inr st1)
    then have "main_html st1 \<noteq> None"
      using Cons.prems register_part_main_html[of L p st st1] by simp
    then show ?thesis using e Inr Cons.IH by simp
  qed
qed

lemma process_parts_no_html:
  "list_all (\<lambda>q. \<not> is_html_part q) ps \<Longrightarrow> process_parts L ps st = register_parts L ps st"
proof (induction ps arbitrary: st)
  case Nil
  then show ?case by simp
next
  case (Cons p ps)
  then have e: "process_part L p st = register_part L p st" by (simp add: process_part_register)
  then show ?case using Cons by (simp split: sum.splits)
qed

lemma process_parts_append:
  "process_parts L (xs @ ys) st =
     (case process_parts L xs st of Inl e \<Rightarrow> Inl e | Inr st1 \<Rightarrow> process_parts L ys st1)"
  by (induction xs arbitrary: st) (auto split: sum.splits)


lemma html_part_in_completed_run:
  assumes "process_parts L (pre @ p # post) st0 = Inr st"
      and "main_html st0 = None"
      and "list_all (\<lambda>q. \<not> is_html_part q) pre"
      and "is_html_part p"
  shows "\<exists>st1 content_type decoded headers warnings.
      register_parts L pre st0 = Inr st1 \<and> main_html st1 = None \<and>
      decode_part L p = Inr (Some (content_type, decoded, headers, warnings)) \<and>
      startswith content_type (str ''text/html'') \<and>
      process_part L p st1 =
        Inr (st1\<lparr>logged := logged st1 @ warnings, main_html := Some (decode_text decoded)\<rparr>) \<and>
      register_parts L post
        (st1\<lparr>logged := logged st1 @ warnings, main_html := Some (decode_text decoded)\<rparr>) = Inr st \<and>
      main_html st = Some (decode_text decoded) \<and>
      decode_text decoded =
        (case utf8_decode decoded of Some t \<Rightarrow> t | None \<Rightarrow> latin1_decode decoded) \<and>
      (\<forall>q s s' t. main_html s = Some t \<and> process_part L q s = Inr s' \<longrightarrow> main_html s' = Some t)"
proof -
  from assms(1) obtain st1 where 1: "process_parts L pre st0 = Inr st1"
    and r: "process_parts L (p # post) st1 = Inr st"
    by (auto simp: process_parts_append split: sum.splits)
  have a: "register_parts L pre st0 = Inr st1" using 1 assms(3) by (simp add: process_parts_no_html)
  then have b: "main_html st1 = None"
    using assms(2) register_parts_main_html[of L pre st0 st1] by simp
  from r obtain st2 where 2: "process_part L p st1 = Inr st2" and 3: "process_parts L post st2 = Inr st"
    by (auto split: sum.splits)
  from process_part_html[OF assms(4) b 2] obtain content_type decoded headers warnings where
    d: "decode_part L p = Inr (Some (content_type, decoded, headers, warnings))"
    and h: "startswith content_type (str ''text/html'')"
    and s2: "st2 = st1\<lparr>logged := logged st1 @ warnings, main_html := Some (decode_text decoded)\<rparr>"
    by blast
  have m2: "main_html st2 \<noteq> None" using s2 by simp
  have c: "register_parts L post st2 = Inr st" using 3 m2 by (simp add: process_parts_after_html)
  then have e: "main_html st = Some (decode_text decoded)"
    using s2 register_parts_main_html[of L post st2 st] by simp
  have f: "decode_text decoded =
        (case utf8_decode decoded of Some t \<Rightarrow> t | None \<Rightarrow> latin1_decode decoded)"
    by (simp add: decode_text_def)
  have g: "\<forall>q s s' t. main_html s = Some t \<and> process_part L q s = Inr s' \<longrightarrow> main_html s' = Some t"
  proof (intro allI impI)
    fix q s s' t
    assume x: "main_html s = Some t \<and> process_part L q s = Inr s'"
    then have "main_html s \<noteq> None" by simp
    then have "process_part L q s = register_part L q s"
      by (intro process_part_register disjI1)
    then have "register_part L q s = Inr s'" using x by simp
    then show "main_html s' = Some t" using x register_part_main_html[of L q s s'] by simp
  qed
  have p2: "process_part L p st1 =
        Inr (st1\<lparr>logged := logged st1 @ warnings, main_html := Some (decode_text decoded)\<rparr>)"
    using 2 s2 by simp
  have c2: "register_parts L post
        (st1\<lparr>logged := logged st1 @ warnings, main_html := Some (decode_text decoded)\<rparr>) = Inr st"
    using c s2 by simp
  show ?thesis
    apply (rule exI[of _ st1], rule exI[of _ content_type], rule exI[of _ decoded])
    apply (rule exI[of _ headers], rule exI[of _ warnings])
    apply (intro conjI a b d h p2 c2 e f g)
    done
qed

text \<open>
  Claim C1. A run over the parts of a document (texts without surrogate code point, as every
  text read from a file is) completes; when \<open>p\<close> is the first part whose content type
  starts with \<open>text/html\<close>, the main HTML at the end of the run is the
  text of the decoded bytes of \<open>p\<close>, decoded as UTF-8 and, when that fails, as Latin-1.
  The parts before \<open>p\<close> go through the data-URI path, \<open>p\<close> itself changes nothing but
  the main HTML (and the log), and every part after \<open>p\<close>, of whatever content type, goes
  through the data-URI path, which never sets the main HTML: it is set once.
\<close>

theorem first_html_part_wins:
  assumes "list_all valid_text (pre @ p # post)"
      and "main_html st0 = None"
      and "list_all (\<lambda>q. \<not> is_html_part q) pre"
      and "is_html_part p"
  shows "\<exists>st st1 content_type decoded headers warnings.
      process_parts L (pre @ p # post) st0 = Inr st \<and>
      register_parts L pre st0 = Inr st1 \<and> main_html st1 = None \<and>
      decode_part L p = Inr (Some (content_type, decoded, headers, warnings)) \<and>
      startswith content_type (str ''text/html'') \<and>
      process_part L p st1 =
        Inr (st1\<lparr>logged := logged st1 @ warnings, main_html := Some (decode_text decoded)\<rparr>) \<and>
      register_parts L post
        (st1\<lparr>logged := logged st1 @ warnings, main_html := Some (decode_text decoded)\<rparr>) = Inr st \<and>
      main_html st = Some (decode_text decoded) \<and>
      decode_text decoded =
        (case utf8_decode decoded of Some t \<Rightarrow> t | None \<Rightarrow> latin1_decode decoded) \<and>
      (\<forall>q s s' t. main_html s = Some t \<and> process_part L q s = Inr s' \<longrightarrow> main_html s' = Some t)"
proof -
  obtain st where r: "process_parts L (pre @ p # post) st0 = Inr st"
    using process_parts_total[OF assms(1)] by blast
  from html_part_in_completed_run[OF r assms(2,3,4)] r show ?thesis by blast
qed

theorem first_html_part_wins_witness:
  "\<forall>L. process_parts L
          ([str ''Content-Location: a'' @ [LF, LF] @ str ''A'']
             @ (str ''Content-Type: text/html'' @ [LF, LF] @ str ''<p>1</p>'')
             # [str ''Content-Type: text/html'' @ [LF] @ str ''Content-Location: b'' @ [LF, LF]
                  @ str ''<p>2</p>''])
          new_converter
          = Inr (new_converter\<lparr>
                   url_to_data_uri :=
                     [(str ''a'', str ''data:application/octet-stream;base64,QQ==''),
                      (str ''b'', str ''data:text/html;base64,PHA+MjwvcD4='')],
                   main_html := Some (str ''<p>1</p>'')\<rparr>) \<and>
        list_all valid_text
          ([str ''Content-Location: a'' @ [LF, LF] @ str ''A'']
             @ (str ''Content-Type: text/html'' @ [LF, LF] @ str ''<p>1</p>'')
             # [str ''Content-Type: text/html'' @ [LF] @ str ''Content-Location: b'' @ [LF, LF]
                  @ str ''<p>2</p>'']) \<and>
        main_html new_converter = None \<and>
        list_all (\<lambda>q. \<not> is_html_part q) [str ''Content-Location: a'' @ [LF, LF] @ str ''A''] \<and>
        is_html_part (str ''Content-Type: text/html'' @ [LF, LF] @ str ''<p>1</p>'') \<and>
        is_html_part (str ''Content-Type: text/html'' @ [LF] @ str ''Content-Location: b'' @ [LF, LF]
                  @ str ''<p>2</p>'')"
proof
  fix L
  let ?pre = "[str ''Content-Location: a'' @ [LF, LF] @ str ''A'']"
  let ?p = "str ''Content-Type: text/html'' @ [LF, LF] @ str ''<p>1</p>''"
  let ?q = "str ''Content-Type: text/html'' @ [LF] @ str ''Content-Location: b'' @ [LF, LF]
                  @ str ''<p>2</p>''"
  let ?st = "new_converter\<lparr>
                   url_to_data_uri :=
                     [(str ''a'', str ''data:application/octet-stream;base64,QQ==''),
                      (str ''b'', str ''data:text/html;base64,PHA+MjwvcD4='')],
                   main_html := Some (str ''<p>1</p>'')\<rparr>"
  have r: "process_parts L (?pre @ ?p # [?q]) new_converter = Inr ?st"
    by (simp add: eval_defs)
  have m: "main_html new_converter = None" by (simp add: new_converter_def)
  have n: "list_all (\<lambda>q. \<not> is_html_part q) ?pre"
    by (simp add: is_html_part_def part_content_type_def eval_defs)
  have h: "is_html_part ?p"
    by (simp add: is_html_part_def part_content_type_def eval_defs)
  have h2: "is_html_part ?q"
    by (simp add: is_html_part_def part_content_type_def eval_defs)
  have v: "list_all valid_text (?pre @ ?p # [?q])"
    by (simp add: valid_text_def is_surrogate_def str_def LF_def)
  from first_html_part_wins[OF v m n h, of L] r
  have "main_html ?st = Some (str ''<p>1</p>'')" by auto
  then show "process_parts L (?pre @ ?p # [?q]) new_converter = Inr ?st \<and>
        list_all valid_text (?pre @ ?p # [?q]) \<and>
        main_html new_converter = None \<and>
        list_all (\<lambda>q. \<not> is_html_part q) ?pre \<and> is_html_part ?p \<and> is_html_part ?q"
    using r v m n h h2 by blast
qed

section \<open>A document with a single HTML part and no reference\<close>

lemma single_html_in_completed_run:
  assumes "extract_parts content new_converter = Inr (pre @ p # post, st0)"
      and "is_html_part p"
      and "list_all (\<lambda>q. \<not> is_html_part q) (pre @ post)"
      and "process_parts L (pre @ p # post) st0 = Inr st"
      and "decode_part L p = Inr (Some (content_type, decoded, headers, warnings))"
      and "list_all (\<lambda>k. \<not> sublist k (decode_text decoded)) (map fst (url_to_data_uri st))"
  shows "convert L content =
           Inr (st\<lparr>logged := logged st @ [Info_Saved]\<rparr>, Some (decode_text decoded))"
proof -
  have m0: "main_html st0 = None"
    using assms(1) by (auto simp: extract_parts_cases new_converter_def split: option.splits)
  from assms(4) obtain st1 where 1: "process_parts L pre st0 = Inr st1"
    and r: "process_parts L (p # post) st1 = Inr st"
    by (auto simp: process_parts_append split: sum.splits)
  have "register_parts L pre st0 = Inr st1" using 1 assms(3) by (simp add: process_parts_no_html)
  then have b: "main_html st1 = None"
    using m0 register_parts_main_html[of L pre st0 st1] by simp
  from r obtain st2 where 2: "process_part L p st1 = Inr st2" and 3: "process_parts L post st2 = Inr st"
    by (auto split: sum.splits)
  from process_part_html[OF assms(2) b 2] assms(5)
  have s2: "main_html st2 = Some (decode_text decoded)" by auto
  then have "register_parts L post st2 = Inr st" using 3 by (simp add: process_parts_after_html)
  then have m: "main_html st = Some (decode_text decoded)"
    using s2 register_parts_main_html[of L post st2 st] by simp
  have "set ks \<subseteq> set (map fst (url_to_data_uri st)) \<Longrightarrow>
        foldl (\<lambda>h (k, uri). str_replace h k uri) (decode_text decoded)
          (map (\<lambda>k. (k, the (map_of (url_to_data_uri st) k))) ks) = decode_text decoded" for ks
  proof (induction ks)
    case Nil
    then show ?case by simp
  next
    case (Cons k ks)
    then have "\<not> sublist k (decode_text decoded)" using assms(6) by (auto simp: list_all_iff)
    then show ?case using Cons by (simp add: str_replace_absent)
  qed
  from this[of "sorted_keys (url_to_data_uri st)"]
  have "replace_links (url_to_data_uri st) (decode_text decoded) = Inr (decode_text decoded)"
    unfolding replace_links_def
    using replace_loop_fold[of "sorted_keys (url_to_data_uri st)" "url_to_data_uri st" "decode_text decoded"]
    by (simp add: sorted_keys_set)
  then show ?thesis using assms(1,4) m by (simp add: convert_def)
qed

text \<open>
  Claim C9. For a document (a text without surrogate code point) from which
  \<^verbatim>\<open>_extract_parts\<close> returns parts of which exactly one, \<open>p\<close>, has a content type that
  starts with \<open>text/html\<close>, the run over the parts completes, and when no key of the
  dictionary it ends with occurs in the decoded text of \<open>p\<close>, \<^verbatim>\<open>convert\<close> writes that
  text, unchanged, to the output file.
\<close>

theorem single_html_unchanged:
  assumes "extract_parts content new_converter = Inr (pre @ p # post, st0)"
      and "valid_text content"
      and "is_html_part p"
      and "list_all (\<lambda>q. \<not> is_html_part q) (pre @ post)"
  shows "\<exists>st content_type decoded headers warnings.
      process_parts L (pre @ p # post) st0 = Inr st \<and>
      decode_part L p = Inr (Some (content_type, decoded, headers, warnings)) \<and>
      (list_all (\<lambda>k. \<not> sublist k (decode_text decoded)) (map fst (url_to_data_uri st)) \<longrightarrow>
         convert L content =
           Inr (st\<lparr>logged := logged st @ [Info_Saved]\<rparr>, Some (decode_text decoded)))"
proof -
  have "list_all valid_text (pre @ p # post)"
    using assms(1,2) by (rule extract_parts_valid)
  then obtain st where r: "process_parts L (pre @ p # post) st0 = Inr st"
    using process_parts_total by blast
  have m0: "main_html st0 = None"
    using assms(1) by (auto simp: extract_parts_cases new_converter_def split: option.splits)
  have n: "list_all (\<lambda>q. \<not> is_html_part q) pre" using assms(4) by simp
  from html_part_in_completed_run[OF r m0 n assms(3)]
  obtain content_type decoded headers warnings where
    d: "decode_part L p = Inr (Some (content_type, decoded, headers, warnings))"
    by blast
  have "list_all (\<lambda>k. \<not> sublist k (decode_text decoded)) (map fst (url_to_data_uri st)) \<longrightarrow>
         convert L content =
           Inr (st\<lparr>logged := logged st @ [Info_Saved]\<rparr>, Some (decode_text decoded))"
    using single_html_in_completed_run[OF assms(1,3,4) r d] by blast
  then show ?thesis using r d by blast
qed

theorem single_html_unchanged_witness:
  "\<forall>L. extract_parts
          (str ''boundary=\"X\"'' @ [LF, LF] @ str ''--X'' @ [LF] @ str ''Content-Type: text/html''
             @ [LF, LF] @ str ''<p>hi</p>'' @ [LF] @ str ''--X'' @ [LF]
             @ str ''Content-Location: a.png'' @ [LF, LF] @ str ''PNG'' @ [LF] @ str ''--X--'')
          new_converter
          = Inr ([] @ ([LF] @ str ''Content-Type: text/html'' @ [LF, LF] @ str ''<p>hi</p>'' @ [LF])
                   # [[LF] @ str ''Content-Location: a.png'' @ [LF, LF] @ str ''PNG'' @ [LF]],
                 new_converter\<lparr>boundary := Some (str ''X'')\<rparr>) \<and>
        valid_text
          (str ''boundary=\"X\"'' @ [LF, LF] @ str ''--X'' @ [LF] @ str ''Content-Type: text/html''
             @ [LF, LF] @ str ''<p>hi</p>'' @ [LF] @ str ''--X'' @ [LF]
             @ str ''Content-Location: a.png'' @ [LF, LF] @ str ''PNG'' @ [LF] @ str ''--X--'') \<and>
        is_html_part ([LF] @ str ''Content-Type: text/html'' @ [LF, LF] @ str ''<p>hi</p>'' @ [LF]) \<and>
        \<not> is_html_part ([LF] @ str ''Content-Location: a.png'' @ [LF, LF] @ str ''PNG'' @ [LF]) \<and>
        \<not> sublist (str ''a.png'') (str ''<p>hi</p>'') \<and>
        convert L
          (str ''boundary=\"X\"'' @ [LF, LF] @ str ''--X'' @ [LF] @ str ''Content-Type: text/html''
             @ [LF, LF] @ str ''<p>hi</p>'' @ [LF] @ str ''--X'' @ [LF]
             @ str ''Content-Location: a.png'' @ [LF, LF] @ str ''PNG'' @ [LF] @ str ''--X--'')
          = Inr (\<lparr>boundary = Some (str ''X''),
                   url_to_data_uri = [(str ''a.png'', str ''data:application/octet-stream;base64,UE5H'')],
                   main_html = Some (str ''<p>hi</p>''), logged = [Info_Saved]\<rparr>,
                 Some (str ''<p>hi</p>''))"
proof
  fix L
  let ?doc = "str ''boundary=\"X\"'' @ [LF, LF] @ str ''--X'' @ [LF] @ str ''Content-Type: text/html''
             @ [LF, LF] @ str ''<p>hi</p>'' @ [LF] @ str ''--X'' @ [LF]
             @ str ''Content-Location: a.png'' @ [LF, LF] @ str ''PNG'' @ [LF] @ str ''--X--''"
  let ?p = "[LF] @ str ''Content-Type: text/html'' @ [LF, LF] @ str ''<p>hi</p>'' @ [LF]"
  let ?q = "[LF] @ str ''Content-Location: a.png'' @ [LF, LF] @ str ''PNG'' @ [LF]"
  let ?init = "new_converter\<lparr>boundary := Some (str ''X'')\<rparr>"
  let ?st = "\<lparr>boundary = Some (str ''X''),
                   url_to_data_uri = [(str ''a.png'', str ''data:application/octet-stream;base64,UE5H'')],
                   main_html = Some (str ''<p>hi</p>''), logged = []\<rparr>"
  have e: "extract_parts ?doc new_converter = Inr ([] @ ?p # [?q], ?init)"
    by (simp add: extract_parts_def parse_boundary_def match_here_def match_literal_def
        str_split_def str_def LF_def split_at.simps)
  have h: "is_html_part ?p"
    by (simp add: is_html_part_def part_content_type_def eval_defs)
  have n: "\<not> is_html_part ?q"
    by (simp add: is_html_part_def part_content_type_def eval_defs)
  then have n': "list_all (\<lambda>q. \<not> is_html_part q) ([] @ [?q])" by simp
  have r: "process_parts L ([] @ ?p # [?q]) ?init = Inr ?st"
    by (simp add: eval_defs)
  have d: "decode_part L ?p = Inr (Some (str ''text/html'', [60, 112, 62, 104, 105, 60, 47, 112, 62],
             str ''Content-Type: text/html'', []))"
    by (simp add: eval_defs)
  have t: "decode_text [60, 112, 62, 104, 105, 60, 47, 112, 62] = str ''<p>hi</p>''"
    by (simp add: eval_defs)
  have "str_find (str ''<p>hi</p>'') (str ''a.png'') = None" by (simp add: str_def)
  then have k: "\<not> sublist (str ''a.png'') (str ''<p>hi</p>'')" by (simp add: str_find_None_iff)
  then have k': "list_all (\<lambda>k. \<not> sublist k (decode_text [60, 112, 62, 104, 105, 60, 47, 112, 62]))
                   (map fst (url_to_data_uri ?st))"
    using t by simp
  have v: "valid_text ?doc"
    by (simp add: valid_text_def is_surrogate_def str_def LF_def)
  from single_html_unchanged[OF e v h n', of L] r d k'
  have "convert L ?doc = Inr (?st\<lparr>logged := logged ?st @ [Info_Saved]\<rparr>, Some (str ''<p>hi</p>''))"
    using t by auto
  then show "extract_parts ?doc new_converter = Inr ([] @ ?p # [?q], ?init) \<and> valid_text ?doc \<and>
        is_html_part ?p \<and> \<not> is_html_part ?q \<and> \<not> sublist (str ''a.png'') (str ''<p>hi</p>'') \<and>
        convert L ?doc = Inr (\<lparr>boundary = Some (str ''X''),
                   url_to_data_uri = [(str ''a.png'', str ''data:application/octet-stream;base64,UE5H'')],
                   main_html = Some (str ''<p>hi</p>''), logged = [Info_Saved]\<rparr>,
                 Some (str ''<p>hi</p>''))"
    using e v h n k by simp
qed

section \<open>The transfer decoding of a body\<close>

text \<open>
  Claim C2. For every body (a text without surrogate code point, as every text read from a
  file is) and every transfer-encoding token, \<^verbatim>\<open>_decode_body\<close> returns: with the token
  \<open>base64\<close>, what \<^verbatim>\<open>base64.b64decode\<close> returns; with the token \<open>quoted-printable\<close>, what
  \<^verbatim>\<open>quopri.decodestring\<close> returns; with any other token the UTF-8 encoding of the body.
  When the decoder raises, it logs a warning and returns the UTF-8 encoding of the body:
  it never raises itself. The token it is called with is the header's value, stripped and
  lowered, and \<open>7bit\<close> when the header is missing. A run on such a text ends with its
  result or with one of the two structural errors, whatever the decoders do.
\<close>

theorem decode_body_policy:
  assumes "valid_text body"
  shows "(\<exists>raw. utf8_encode body = Some raw \<and>
      decode_body L encoding body =
        (if encoding = str ''base64'' then
           (case b64decode L body of
              Some d \<Rightarrow> Inr (d, [])
            | None \<Rightarrow> Inr (raw, [Warning_DecodingError]))
         else if encoding = str ''quoted-printable'' then
           (case quopri_decodestring L body of
              Some d \<Rightarrow> Inr (d, [])
            | None \<Rightarrow> Inr (raw, [Warning_DecodingError]))
         else Inr (raw, []))) \<and>
     header_encoding headers =
       (case encoding_match headers of
          Some token \<Rightarrow> str_lower (str_strip token)
        | None \<Rightarrow> str ''7bit'') \<and>
     (\<forall>content. valid_text content \<longrightarrow>
        (\<exists>r. convert L content = Inr r) \<or>
        (\<exists>e. convert L content = Inl e \<and> structural_error e))"
proof -
  from utf8_encode_valid[OF assms] obtain raw where raw: "utf8_encode body = Some raw" ..
  have 1: "\<exists>raw. utf8_encode body = Some raw \<and>
      decode_body L encoding body =
        (if encoding = str ''base64'' then
           (case b64decode L body of
              Some d \<Rightarrow> Inr (d, [])
            | None \<Rightarrow> Inr (raw, [Warning_DecodingError]))
         else if encoding = str ''quoted-printable'' then
           (case quopri_decodestring L body of
              Some d \<Rightarrow> Inr (d, [])
            | None \<Rightarrow> Inr (raw, [Warning_DecodingError]))
         else Inr (raw, []))"
    using raw by (simp add: decode_body_def split: option.splits)
  have 2: "header_encoding headers =
       (case encoding_match headers of
          Some token \<Rightarrow> str_lower (str_strip token)
        | None \<Rightarrow> str ''7bit'')"
    by (simp add: header_encoding_def)
  have 3: "\<forall>content. valid_text content \<longrightarrow>
        (\<exists>r. convert L content = Inr r) \<or>
        (\<exists>e. convert L content = Inl e \<and> structural_error e)"
    using convert_total by blast
  show ?thesis by (intro conjI 1 2 3)
qed

theorem decode_body_policy_witness:
  "\<forall>L. valid_text (str ''hi'') \<and>
        decode_body L (str ''8bit'') (str ''hi'') = Inr ([104, 105], []) \<and>
        header_encoding (str ''Content-Transfer-Encoding:  BASE64 '') = str ''base64''"
proof
  fix L
  have v: "valid_text (str ''hi'')"
    by (simp add: valid_text_def str_def is_surrogate_def)
  have e: "utf8_encode (str ''hi'') = Some [104, 105]"
    by (simp add: utf8_encode_def utf8_encode_char_def str_def)
  have n: "str ''8bit'' \<noteq> str ''base64''" "str ''8bit'' \<noteq> str ''quoted-printable''"
    by (simp_all add: str_def)
  have h: "encoding_match (str ''Content-Transfer-Encoding:  BASE64 '') = Some (str '' BASE64 '')"
    by (simp add: encoding_match_def match_here_def match_literal_def str_def
        re_ignorecase_eq_def ascii_lower_def LF_def)
  have l: "str_lower (str_strip (str '' BASE64 '')) = str ''base64''"
    by (simp add: str_lower_def str_strip_def str_rstrip_def str_lstrip_def py_isspace_def
        lower_char_def str_def)
  note t = decode_body_policy[OF v, of L "str ''8bit''" "str ''Content-Transfer-Encoding:  BASE64 ''"]
  from t[THEN conjunct1] have d: "decode_body L (str ''8bit'') (str ''hi'') = Inr ([104, 105], [])"
    using e n by auto
  from t[THEN conjunct2, THEN conjunct1]
  have "header_encoding (str ''Content-Transfer-Encoding:  BASE64 '') = str ''base64''"
    using h l by simp
  then show "valid_text (str ''hi'') \<and>
        decode_body L (str ''8bit'') (str ''hi'') = Inr ([104, 105], []) \<and>
        header_encoding (str ''Content-Transfer-Encoding:  BASE64 '') = str ''base64''"
    using v d by simp
qed

end
